theory Spec2Isabelle
  imports Complex_Main
begin

text \<open>
  The batch pipeline of \<^verbatim>\<open>pipeline.py\<close>: three source files are read, loaded into
  staging tables and transformed by four SQL statements into a star schema. The SQL is
  embedded by what PostgreSQL does with it: tables are lists of rows, a statement is a
  function on the database.
\<close>

section \<open>SQL values\<close>

text \<open>
  A nullable column is an \<open>option\<close>: \<open>None\<close> is SQL's NULL, which pandas writes for an
  empty cell. A condition is three-valued (\<open>bool option\<close>); a join's ON, a WHERE and a
  CASE WHEN accept only the value TRUE.
\<close>

datatype date = Date (date_year: int) (date_month: nat) (date_day: nat)

datatype timestamp = Timestamp (ts_date: date) (ts_seconds: nat)

text \<open>\<^verbatim>\<open>DATE_TRUNC('month', x)\<close> of a date: midnight of the first day of its month.\<close>

definition date_trunc_month :: "date \<Rightarrow> timestamp" where
  "date_trunc_month x = Timestamp (Date (date_year x) (date_month x) 1) 0"

definition sql_eq :: "'a option \<Rightarrow> 'a option \<Rightarrow> bool option" where
  "sql_eq a b =
     (case a of None \<Rightarrow> None
      | Some x \<Rightarrow> (case b of None \<Rightarrow> None | Some y \<Rightarrow> Some (x = y)))"

definition sql_or :: "bool option \<Rightarrow> bool option \<Rightarrow> bool option" where
  "sql_or a b =
     (if a = Some True \<or> b = Some True then Some True
      else if a = Some False \<and> b = Some False then Some False
      else None)"

definition sql_and :: "bool option \<Rightarrow> bool option \<Rightarrow> bool option" where
  "sql_and a b =
     (if a = Some False \<or> b = Some False then Some False
      else if a = Some True \<and> b = Some True then Some True
      else None)"

definition is_not_null :: "'a option \<Rightarrow> bool option" where
  "is_not_null a = Some (a \<noteq> None)"

definition sql_div :: "rat option \<Rightarrow> rat option \<Rightarrow> rat option" where
  "sql_div a b =
     (case a of None \<Rightarrow> None
      | Some x \<Rightarrow> (case b of None \<Rightarrow> None | Some y \<Rightarrow> Some (x / y)))"

definition sql_true :: "bool option \<Rightarrow> bool" where
  "sql_true c = (c = Some True)"

text \<open>
  The metadata column holds one JSON object per event (the extractor serialises it with
  \<^verbatim>\<open>json.dumps\<close>, which writes each key once). It is kept as the list of its
  members, each value as the text that \<^verbatim>\<open>->>\<close> renders (\<open>None\<close> for a JSON
  null).
\<close>

type_synonym json_object = "(string \<times> string option) list"

definition json_get_text :: "json_object option \<Rightarrow> string \<Rightarrow> string option" where
  "json_get_text j k =
     (case j of None \<Rightarrow> None
      | Some members \<Rightarrow> (case map_of members k of None \<Rightarrow> None | Some v \<Rightarrow> v))"

section \<open>Relations\<close>

text \<open>
  Field names carry the alias the queries give their table (\<open>e\<close>, \<open>c\<close>, \<open>s\<close>, \<open>p\<close>,
  \<open>d\<close>, \<open>sd\<close>). Only the columns that \<^verbatim>\<open>TRANSFORM_SQL\<close> reads or writes are kept.
\<close>

record app_events_raw =
  e_event_timestamp :: "timestamp option"
  e_customer_id :: "string option"
  e_event_type :: "string option"
  e_feature_name :: "string option"
  e_metadata :: "json_object option"

record customers_raw =
  c_customer_id :: "string option"
  c_company_name :: "string option"
  c_country :: "string option"
  c_address :: "string option"
  c_signup_date :: "date option"
  c_subscription_id :: "string option"

record subscriptions_raw =
  s_subscription_id :: "string option"
  s_plan_name :: "string option"
  s_period :: "string option"
  s_amount :: "rat option"
  s_currency :: "string option"
  s_status :: "string option"
  s_start_date :: "date option"
  s_end_date :: "date option"

text \<open>
  Modelled from the spec: the table declarations of \<^verbatim>\<open>schema/schema.sql\<close>, which is
  not under src/. The dimensions are natural-keyed: \<open>customer_id\<close> is the primary key of
  \<open>dim_customer\<close>, \<open>(plan_name, period)\<close> the unique key of \<open>dim_plan\<close>, and a key
  column holds no NULL. The INSERT into \<open>dim_plan\<close> leaves \<open>plan_key\<close> to the column's
  default, a sequence.
\<close>

record dim_customer =
  dc_customer_id :: string
  dc_company_name :: "string option"
  dc_country :: "string option"
  dc_address :: "string option"
  dc_signup_date :: "date option"

record dim_plan =
  p_plan_key :: nat
  p_plan_name :: string
  p_period :: string
  p_base_amount :: "rat option"
  p_currency :: "string option"

record dim_date =
  d_date_key :: int
  d_full_date :: date

record fact_app_usage =
  fu_event_timestamp :: "timestamp option"
  fu_date_key :: int
  fu_customer_id :: "string option"
  fu_event_type :: "string option"
  fu_feature_name :: "string option"
  fu_device_type :: "string option"

record fact_subscription_events =
  fs_date_key :: int
  fs_customer_id :: "string option"
  fs_plan_key :: nat
  fs_subscription_id :: "string option"
  fs_mrr_amount :: "rat option"
  fs_churn_flag :: "bool option"
  fs_is_new_mrr_flag :: "bool option"
  fs_status :: "string option"

record database =
  stg_app_events_raw :: "app_events_raw list"
  stg_customers_raw :: "customers_raw list"
  stg_subscriptions_raw :: "subscriptions_raw list"
  analytics_dim_customer :: "dim_customer list"
  analytics_dim_plan :: "dim_plan list"
  analytics_dim_date :: "dim_date list"
  analytics_fact_app_usage :: "fact_app_usage list"
  analytics_fact_subscription_events :: "fact_subscription_events list"
  dim_plan_key_seq :: nat

text \<open>The contents of the eight relations, without the sequence.\<close>

definition relations ::
  "database \<Rightarrow>
     (app_events_raw list \<times> customers_raw list \<times> subscriptions_raw list) \<times>
     (dim_customer list \<times> dim_plan list \<times> dim_date list) \<times>
     (fact_app_usage list \<times> fact_subscription_events list)" where
  "relations db =
     ((stg_app_events_raw db, stg_customers_raw db, stg_subscriptions_raw db),
      (analytics_dim_customer db, analytics_dim_plan db, analytics_dim_date db),
      (analytics_fact_app_usage db, analytics_fact_subscription_events db))"

datatype error =
    FileError string
  | NotNullViolation string
  | CardinalityViolation string

text \<open>
  A statement runs on the database and either succeeds or raises; a statement that
  raises leaves the relations as they were (the sequence keeps what it handed out).
\<close>

type_synonym statement = "database \<Rightarrow> error option \<times> database"

section \<open>TRANSFORM\_SQL\<close>

subsection \<open>dim\_customer\<close>

text \<open>
  \<^verbatim>\<open>INSERT ... SELECT ... FROM stg.customers_raw ON CONFLICT (customer_id) DO UPDATE\<close>:
  each staging row is proposed in turn (\<open>customer_step\<close>). A row whose key is
  already in the table overwrites the four descriptive columns of that row; PostgreSQL
  raises when one command would touch the same key twice. \<open>seen\<close> holds the keys
  proposed so far.
\<close>

definition customer_excluded :: "customers_raw \<Rightarrow> dim_customer \<Rightarrow> dim_customer" where
  "customer_excluded c r =
     r\<lparr>dc_company_name := c_company_name c, dc_country := c_country c,
       dc_address := c_address c, dc_signup_date := c_signup_date c\<rparr>"

definition customer_inserted :: "string \<Rightarrow> customers_raw \<Rightarrow> dim_customer" where
  "customer_inserted k c =
     \<lparr>dc_customer_id = k, dc_company_name = c_company_name c, dc_country = c_country c,
      dc_address = c_address c, dc_signup_date = c_signup_date c\<rparr>"

definition customer_step :: "customers_raw \<Rightarrow> string \<Rightarrow> dim_customer list \<Rightarrow> dim_customer list" where
  "customer_step c k tbl =
     (if k \<in> set (map dc_customer_id tbl)
      then map (\<lambda>r. if dc_customer_id r = k then customer_excluded c r else r) tbl
      else tbl @ [customer_inserted k c])"

fun upsert_dim_customer ::
  "customers_raw list \<Rightarrow> string list \<Rightarrow> dim_customer list \<Rightarrow> error + dim_customer list" where
  "upsert_dim_customer [] seen tbl = Inr tbl"
| "upsert_dim_customer (c # cs) seen tbl =
     (case c_customer_id c of
        None \<Rightarrow> Inl (NotNullViolation ''dim_customer.customer_id'')
      | Some k \<Rightarrow>
          if k \<in> set seen then Inl (CardinalityViolation ''dim_customer'')
          else upsert_dim_customer cs (k # seen) (customer_step c k tbl))"

definition transform_dim_customer :: statement where
  "transform_dim_customer db =
     (case upsert_dim_customer (stg_customers_raw db) [] (analytics_dim_customer db) of
        Inl err \<Rightarrow> (Some err, db)
      | Inr tbl \<Rightarrow> (None, db\<lparr>analytics_dim_customer := tbl\<rparr>))"

subsection \<open>dim\_plan\<close>

text \<open>
  \<^verbatim>\<open>ROW_NUMBER() OVER(PARTITION BY plan_name, period ORDER BY amount DESC)\<close>.
  A partition holds the staging rows that agree on \<open>(plan_name, period)\<close>, NULLs
  included. \<^verbatim>\<open>ORDER BY amount DESC\<close> puts NULL first (PostgreSQL's default for a
  descending sort) and then the larger amount first: \<open>not_after x y\<close> says that the
  sort does not put \<open>x\<close> after \<open>y\<close>. The rows that no row of the partition precedes are
  peers: the query does not say which of them is numbered 1. That choice is the
  executor's, and it is the parameter \<open>tb\<close>: given the peers it returns the position of
  the one that gets \<open>rn = 1\<close>. The partitions are taken in the order in which
  \<open>remdups\<close> leaves their keys; that order only decides which value of the sequence a
  new plan draws.
\<close>

type_synonym tie_break = "subscriptions_raw list \<Rightarrow> nat"

definition partition_key :: "subscriptions_raw \<Rightarrow> string option \<times> string option" where
  "partition_key s = (s_plan_name s, s_period s)"

definition partition_rows ::
  "string option \<times> string option \<Rightarrow> subscriptions_raw list \<Rightarrow> subscriptions_raw list" where
  "partition_rows k ss = filter (\<lambda>s. partition_key s = k) ss"

definition not_after :: "subscriptions_raw \<Rightarrow> subscriptions_raw \<Rightarrow> bool" where
  "not_after x y =
     (case s_amount x of None \<Rightarrow> True
      | Some a \<Rightarrow> (case s_amount y of None \<Rightarrow> False | Some b \<Rightarrow> b \<le> a))"

definition first_peers :: "subscriptions_raw list \<Rightarrow> subscriptions_raw list" where
  "first_peers g = filter (\<lambda>x. list_all (not_after x) g) g"

definition rn_1 :: "tie_break \<Rightarrow> subscriptions_raw list \<Rightarrow> subscriptions_raw list" where
  "rn_1 tb g =
     (let peers = first_peers g
      in if peers = [] then [] else [peers ! (tb peers mod length peers)])"

definition ranked_subscriptions_rn_1 ::
  "tie_break \<Rightarrow> subscriptions_raw list \<Rightarrow> subscriptions_raw list" where
  "ranked_subscriptions_rn_1 tb ss =
     concat (map (\<lambda>k. rn_1 tb (partition_rows k ss)) (remdups (map partition_key ss)))"

text \<open>
  \<^verbatim>\<open>INSERT ... ON CONFLICT (plan_name, period) DO UPDATE SET base_amount, currency\<close>.
  Every proposed row draws a value from the sequence, whether it is inserted or
  conflicts (\<open>plan_step\<close>). The proposed rows have pairwise different keys (one per partition), so no
  key is touched twice.
\<close>

definition plan_id :: "dim_plan \<Rightarrow> string \<times> string" where
  "plan_id r = (p_plan_name r, p_period r)"

definition plan_excluded :: "subscriptions_raw \<Rightarrow> dim_plan \<Rightarrow> dim_plan" where
  "plan_excluded s r = r\<lparr>p_base_amount := s_amount s, p_currency := s_currency s\<rparr>"

definition plan_inserted :: "nat \<Rightarrow> string \<Rightarrow> string \<Rightarrow> subscriptions_raw \<Rightarrow> dim_plan" where
  "plan_inserted key n q s =
     \<lparr>p_plan_key = key, p_plan_name = n, p_period = q,
      p_base_amount = s_amount s, p_currency = s_currency s\<rparr>"

definition plan_step :: "subscriptions_raw \<Rightarrow> string \<times> string \<Rightarrow> nat \<Rightarrow> dim_plan list \<Rightarrow> dim_plan list" where
  "plan_step s k seq tbl =
     (if k \<in> set (map plan_id tbl)
      then map (\<lambda>r. if plan_id r = k then plan_excluded s r else r) tbl
      else tbl @ [plan_inserted seq (fst k) (snd k) s])"

fun upsert_dim_plan ::
  "subscriptions_raw list \<Rightarrow> nat \<Rightarrow> dim_plan list \<Rightarrow> error option \<times> nat \<times> dim_plan list" where
  "upsert_dim_plan [] seq tbl = (None, seq, tbl)"
| "upsert_dim_plan (s # ss) seq tbl =
     (case s_plan_name s of
        None \<Rightarrow> (Some (NotNullViolation ''dim_plan.plan_name''), Suc seq, tbl)
      | Some n \<Rightarrow>
         (case s_period s of
            None \<Rightarrow> (Some (NotNullViolation ''dim_plan.period''), Suc seq, tbl)
          | Some q \<Rightarrow> upsert_dim_plan ss (Suc seq) (plan_step s (n, q) seq tbl)))"

definition transform_dim_plan :: "tie_break \<Rightarrow> statement" where
  "transform_dim_plan tb db =
     (case upsert_dim_plan (ranked_subscriptions_rn_1 tb (stg_subscriptions_raw db))
             (dim_plan_key_seq db) (analytics_dim_plan db) of
        (Some err, seq, tbl) \<Rightarrow> (Some err, db\<lparr>dim_plan_key_seq := seq\<rparr>)
      | (None, seq, tbl) \<Rightarrow> (None, db\<lparr>analytics_dim_plan := tbl, dim_plan_key_seq := seq\<rparr>))"

subsection \<open>fact\_app\_usage\<close>

definition app_usage_row :: "app_events_raw \<Rightarrow> dim_date \<Rightarrow> fact_app_usage" where
  "app_usage_row e d =
     \<lparr>fu_event_timestamp = e_event_timestamp e, fu_date_key = d_date_key d,
      fu_customer_id = e_customer_id e, fu_event_type = e_event_type e,
      fu_feature_name = e_feature_name e,
      fu_device_type = json_get_text (e_metadata e) ''device''\<rparr>"

text \<open>\<^verbatim>\<open>ON e.event_timestamp::date = d.full_date\<close>\<close>

definition app_usage_on :: "app_events_raw \<Rightarrow> dim_date \<Rightarrow> bool" where
  "app_usage_on e d =
     sql_true (sql_eq (map_option ts_date (e_event_timestamp e)) (Some (d_full_date d)))"

definition fact_app_usage_select :: "database \<Rightarrow> fact_app_usage list" where
  "fact_app_usage_select db =
     concat (map (\<lambda>e. map (app_usage_row e) (filter (app_usage_on e) (analytics_dim_date db)))
       (stg_app_events_raw db))"

definition transform_fact_app_usage :: statement where
  "transform_fact_app_usage db =
     (let db1 = db\<lparr>analytics_fact_app_usage := []\<rparr>
      in (None, db1\<lparr>analytics_fact_app_usage :=
                      analytics_fact_app_usage db1 @ fact_app_usage_select db1\<rparr>))"

subsection \<open>fact\_subscription\_events\<close>

record subscription_details =
  sd_subscription_id :: "string option"
  sd_status :: "string option"
  sd_start_date :: "date option"
  sd_end_date :: "date option"
  sd_mrr_amount :: "rat option"
  sd_customer_id :: "string option"
  sd_plan_key :: nat

text \<open>\<^verbatim>\<open>CASE WHEN s.period = 'yearly' THEN s.amount / 12.0 ELSE s.amount END\<close>\<close>

definition mrr_amount :: "subscriptions_raw \<Rightarrow> rat option" where
  "mrr_amount s =
     (if sql_true (sql_eq (s_period s) (Some ''yearly''))
      then sql_div (s_amount s) (Some 12)
      else s_amount s)"

definition details_row :: "subscriptions_raw \<Rightarrow> customers_raw \<Rightarrow> dim_plan \<Rightarrow> subscription_details" where
  "details_row s c p =
     \<lparr>sd_subscription_id = s_subscription_id s, sd_status = s_status s,
      sd_start_date = s_start_date s, sd_end_date = s_end_date s,
      sd_mrr_amount = mrr_amount s, sd_customer_id = c_customer_id c,
      sd_plan_key = p_plan_key p\<rparr>"

text \<open>\<^verbatim>\<open>ON s.subscription_id = c.subscription_id\<close>\<close>

definition customer_on :: "subscriptions_raw \<Rightarrow> customers_raw \<Rightarrow> bool" where
  "customer_on s c = sql_true (sql_eq (s_subscription_id s) (c_subscription_id c))"

text \<open>\<^verbatim>\<open>ON s.plan_name = p.plan_name AND s.period = p.period\<close>\<close>

definition plan_on :: "subscriptions_raw \<Rightarrow> dim_plan \<Rightarrow> bool" where
  "plan_on s p =
     sql_true (sql_and (sql_eq (s_plan_name s) (Some (p_plan_name p)))
                       (sql_eq (s_period s) (Some (p_period p))))"

definition subscription_details_cte :: "database \<Rightarrow> subscription_details list" where
  "subscription_details_cte db =
     concat (map (\<lambda>s.
       concat (map (\<lambda>c. map (details_row s c) (filter (plan_on s) (analytics_dim_plan db)))
         (filter (customer_on s) (stg_customers_raw db))))
       (stg_subscriptions_raw db))"

text \<open>\<^verbatim>\<open>ON sd.start_date = d.full_date\<close>\<close>

definition date_on :: "subscription_details \<Rightarrow> dim_date \<Rightarrow> bool" where
  "date_on sd d = sql_true (sql_eq (sd_start_date sd) (Some (d_full_date d)))"

definition subscription_event_row :: "subscription_details \<Rightarrow> dim_date \<Rightarrow> fact_subscription_events" where
  "subscription_event_row sd d =
     \<lparr>fs_date_key = d_date_key d, fs_customer_id = sd_customer_id sd,
      fs_plan_key = sd_plan_key sd, fs_subscription_id = sd_subscription_id sd,
      fs_mrr_amount = sd_mrr_amount sd,
      fs_churn_flag = sql_or (sql_eq (sd_status sd) (Some ''cancelled''))
                             (is_not_null (sd_end_date sd)),
      fs_is_new_mrr_flag = sql_eq (map_option date_trunc_month (sd_start_date sd))
                                  (Some (date_trunc_month (d_full_date d))),
      fs_status = sd_status sd\<rparr>"

definition fact_subscription_events_select :: "database \<Rightarrow> fact_subscription_events list" where
  "fact_subscription_events_select db =
     concat (map (\<lambda>sd. map (subscription_event_row sd) (filter (date_on sd) (analytics_dim_date db)))
       (subscription_details_cte db))"

definition transform_fact_subscription_events :: statement where
  "transform_fact_subscription_events db =
     (let db1 = db\<lparr>analytics_fact_subscription_events := []\<rparr>
      in (None, db1\<lparr>analytics_fact_subscription_events :=
                      analytics_fact_subscription_events db1 @ fact_subscription_events_select db1\<rparr>))"

section \<open>The pipeline\<close>

text \<open>
  What a run does to the outside is recorded as a trace of events, oldest first; the
  functions of \<^verbatim>\<open>pipeline.py\<close> are actions on the connection's database and the
  trace that either return or raise. What can raise is what the data decides: a file that
  cannot be read and a statement that violates a key. A lost connection is not modelled.
\<close>

datatype event =
    ReadFile string
  | Begin
  | Commit
  | Rollback
  | ExecuteSchema
  | Truncate string
  | ToSql string
  | ExecuteTransform string
  | LogPipelineFailed error

record world =
  w_db :: database
  w_trace :: "event list"

type_synonym 'a action = "world \<Rightarrow> (error + 'a) \<times> world"

definition emit :: "event \<Rightarrow> world \<Rightarrow> world" where
  "emit ev w = w\<lparr>w_trace := w_trace w @ [ev]\<rparr>"

definition and_then :: "'a action \<Rightarrow> ('a \<Rightarrow> 'b action) \<Rightarrow> 'b action" where
  "and_then m f w = (case m w of (Inl err, w1) \<Rightarrow> (Inl err, w1) | (Inr x, w1) \<Rightarrow> f x w1)"

text \<open>\<^verbatim>\<open>conn.execute(...)\<close>: the event, then the statement on the database.\<close>

definition execute :: "event \<Rightarrow> statement \<Rightarrow> unit action" where
  "execute ev stmt w =
     (let w1 = emit ev w
      in case stmt (w_db w1) of
           (None, db1) \<Rightarrow> (Inr (), w1\<lparr>w_db := db1\<rparr>)
         | (Some err, db1) \<Rightarrow> (Inl err, w1\<lparr>w_db := db1\<rparr>))"

text \<open>
  \<^verbatim>\<open>with conn.begin() as transaction:\<close> commits when the block returns and rolls
  back when it raises, and lets the exception through. A rollback restores every
  relation; a sequence is not rolled back.
\<close>

definition rollback_to :: "database \<Rightarrow> database \<Rightarrow> database" where
  "rollback_to saved cur = saved\<lparr>dim_plan_key_seq := dim_plan_key_seq cur\<rparr>"

definition in_transaction :: "'a action \<Rightarrow> 'a action" where
  "in_transaction body w =
     (let w0 = emit Begin w
      in case body w0 of
           (Inr x, w1) \<Rightarrow> (Inr x, emit Commit w1)
         | (Inl err, w1) \<Rightarrow>
             (Inl err, emit Rollback (w1\<lparr>w_db := rollback_to (w_db w0) (w_db w1)\<rparr>)))"

subsection \<open>extract\_data\_from\_files\<close>

text \<open>
  The files on disk, as pandas parses them: \<open>None\<close> for a file that
  \<^verbatim>\<open>read_json\<close> or \<^verbatim>\<open>read_csv\<close> cannot read, the rows otherwise.
  \<open>schema_sql\<close> says whether \<^verbatim>\<open>schema/schema.sql\<close> can be opened.
\<close>

record source_files =
  app_events_json :: "app_events_raw list option"
  customers_csv :: "customers_raw list option"
  subscriptions_csv :: "subscriptions_raw list option"
  schema_sql :: bool

record dataframes =
  df_app_events :: "app_events_raw list"
  df_customers :: "customers_raw list"
  df_subscriptions :: "subscriptions_raw list"

definition read_file :: "string \<Rightarrow> 'a option \<Rightarrow> 'a action" where
  "read_file path content w =
     (case content of
        None \<Rightarrow> (Inl (FileError path), emit (ReadFile path) w)
      | Some x \<Rightarrow> (Inr x, emit (ReadFile path) w))"

definition extract_data_from_files :: "source_files \<Rightarrow> dataframes action" where
  "extract_data_from_files fs =
     and_then (read_file ''./sample_data/app_events.json'' (app_events_json fs)) (\<lambda>es.
     and_then (read_file ''./sample_data/customers.csv'' (customers_csv fs)) (\<lambda>cs.
     and_then (read_file ''./sample_data/subscriptions.csv'' (subscriptions_csv fs)) (\<lambda>ss.
       (\<lambda>w. (Inr \<lparr>df_app_events = es, df_customers = cs, df_subscriptions = ss\<rparr>, w)))))"

subsection \<open>load\_data\_to\_staging\_with\_sql\<close>

text \<open>
  \<^verbatim>\<open>TRUNCATE TABLE stg.<source>_raw RESTART IDENTITY\<close>, then \<^verbatim>\<open>to_sql\<close> with
  \<^verbatim>\<open>if_exists='append'\<close>, source by source, in the order of \<^verbatim>\<open>SOURCE_FILES\<close>.
  The rows of a data frame already have the types of the staging columns, so the load
  itself does not raise.
\<close>

definition load_data_to_staging_with_sql :: "dataframes \<Rightarrow> unit action" where
  "load_data_to_staging_with_sql dfs =
     and_then (execute (Truncate ''app_events_raw'') (\<lambda>db. (None, db\<lparr>stg_app_events_raw := []\<rparr>))) (\<lambda>_.
     and_then (execute (ToSql ''app_events_raw'')
                 (\<lambda>db. (None, db\<lparr>stg_app_events_raw := stg_app_events_raw db @ df_app_events dfs\<rparr>))) (\<lambda>_.
     and_then (execute (Truncate ''customers_raw'') (\<lambda>db. (None, db\<lparr>stg_customers_raw := []\<rparr>))) (\<lambda>_.
     and_then (execute (ToSql ''customers_raw'')
                 (\<lambda>db. (None, db\<lparr>stg_customers_raw := stg_customers_raw db @ df_customers dfs\<rparr>))) (\<lambda>_.
     and_then (execute (Truncate ''subscriptions_raw'') (\<lambda>db. (None, db\<lparr>stg_subscriptions_raw := []\<rparr>))) (\<lambda>_.
               execute (ToSql ''subscriptions_raw'')
                 (\<lambda>db. (None, db\<lparr>stg_subscriptions_raw := stg_subscriptions_raw db @ df_subscriptions dfs\<rparr>)))))))"

subsection \<open>transform\_data\_in\_analytics\<close>

datatype query_name = Q_dim_customer | Q_dim_plan | Q_fact_app_usage | Q_fact_subscription_events

fun query_text :: "query_name \<Rightarrow> string" where
  "query_text Q_dim_customer = ''dim_customer''"
| "query_text Q_dim_plan = ''dim_plan''"
| "query_text Q_fact_app_usage = ''fact_app_usage''"
| "query_text Q_fact_subscription_events = ''fact_subscription_events''"

fun TRANSFORM_SQL :: "tie_break \<Rightarrow> query_name \<Rightarrow> statement" where
  "TRANSFORM_SQL tb Q_dim_customer = transform_dim_customer"
| "TRANSFORM_SQL tb Q_dim_plan = transform_dim_plan tb"
| "TRANSFORM_SQL tb Q_fact_app_usage = transform_fact_app_usage"
| "TRANSFORM_SQL tb Q_fact_subscription_events = transform_fact_subscription_events"

definition transform_order :: "query_name list" where
  "transform_order = [Q_dim_customer, Q_dim_plan, Q_fact_app_usage, Q_fact_subscription_events]"

fun run_queries :: "tie_break \<Rightarrow> query_name list \<Rightarrow> unit action" where
  "run_queries tb [] = (\<lambda>w. (Inr (), w))"
| "run_queries tb (q # qs) =
     and_then (execute (ExecuteTransform (query_text q)) (TRANSFORM_SQL tb q)) (\<lambda>_. run_queries tb qs)"

definition transform_data_in_analytics :: "tie_break \<Rightarrow> unit action" where
  "transform_data_in_analytics tb = run_queries tb transform_order"

subsection \<open>create\_schema\<close>

text \<open>
  Modelled from the spec: what \<^verbatim>\<open>schema/schema.sql\<close> (not under src/) does when it
  is executed. It creates what is absent and leaves the contents of every relation as
  they are. The function raises when the file cannot be opened.
\<close>

definition create_schema :: "source_files \<Rightarrow> unit action" where
  "create_schema fs =
     and_then (read_file ''schema/schema.sql'' (if schema_sql fs then Some () else None)) (\<lambda>_.
       execute ExecuteSchema (\<lambda>db. (None, db)))"

subsection \<open>main\<close>

definition main :: "tie_break \<Rightarrow> source_files \<Rightarrow> world \<Rightarrow> world" where
  "main tb fs w =
     (case and_then (extract_data_from_files fs) (\<lambda>all_data.
             and_then (in_transaction (create_schema fs)) (\<lambda>_.
               in_transaction
                 (and_then (load_data_to_staging_with_sql all_data) (\<lambda>_.
                    transform_data_in_analytics tb)))) w of
        (Inr _, w1) \<Rightarrow> w1
      | (Inl err, w1) \<Rightarrow> emit (LogPipelineFailed err) w1)"

section \<open>The vocabulary of the properties\<close>

text \<open>
  What the specification's sentences speak of, written after its words: two dates in the
  same calendar month, one fact row per staging event with a resolvable date, the
  maximum amount of a group, a plan row apart from its currency, and two runs that
  number the same rows 1.
\<close>

definition same_calendar_month :: "date \<Rightarrow> date \<Rightarrow> bool" where
  "same_calendar_month a b = (date_year a = date_year b \<and> date_month a = date_month b)"

text \<open>
  One row for a staging event whose date has an entry in the date dimension, none for any
  other event.
\<close>

definition fact_app_usage_one_row_per_resolvable_event :: "database \<Rightarrow> fact_app_usage list" where
  "fact_app_usage_one_row_per_resolvable_event db =
     concat (map (\<lambda>e. case find (app_usage_on e) (analytics_dim_date db) of
                         None \<Rightarrow> [] | Some d \<Rightarrow> [app_usage_row e d])
       (stg_app_events_raw db))"

definition maximum_amount :: "subscriptions_raw list \<Rightarrow> rat" where
  "maximum_amount g = Max (set (List.map_filter s_amount g))"

definition without_currency :: "dim_plan \<Rightarrow> nat \<times> string \<times> string \<times> rat option" where
  "without_currency r = (p_plan_key r, p_plan_name r, p_period r, p_base_amount r)"

text \<open>
  The four columns that the plan query selects from a staging row. Two executors resolve
  the ties of a subscriptions file alike when the rows they number 1 agree in these
  columns; that is so in particular when the rows that tie in a group share their
  currency.
\<close>

definition plan_columns ::
  "subscriptions_raw \<Rightarrow> (string option \<times> string option) \<times> rat option \<times> string option" where
  "plan_columns s = (partition_key s, s_amount s, s_currency s)"

definition ties_resolved_alike :: "tie_break \<Rightarrow> tie_break \<Rightarrow> source_files \<Rightarrow> bool" where
  "ties_resolved_alike tb1 tb2 fs =
     (case subscriptions_csv fs of None \<Rightarrow> True
      | Some ss \<Rightarrow> map plan_columns (ranked_subscriptions_rn_1 tb1 ss) =
                    map plan_columns (ranked_subscriptions_rn_1 tb2 ss))"

definition ties_share_currency :: "subscriptions_raw list \<Rightarrow> bool" where
  "ties_share_currency ss =
     list_all (\<lambda>k. list_all (\<lambda>x. list_all (\<lambda>y. s_currency x = s_currency y)
                                     (first_peers (partition_rows k ss)))
                         (first_peers (partition_rows k ss)))
       (remdups (map partition_key ss))"

text \<open>Two executors: one numbers the first of the peers 1, the other the last.\<close>

definition first_peer :: tie_break where
  "first_peer peers = 0"

definition last_peer :: tie_break where
  "last_peer peers = length peers - 1"

section \<open>The database a run leaves\<close>

text \<open>
  The effect of \<open>main\<close> on the database alone, without the trace: the staging load,
  the four statements in \<open>transform_order\<close>, and the whole run. \<open>appends\<close> says
  that an action only adds events at the end of the trace.
\<close>

definition staged :: "dataframes \<Rightarrow> database \<Rightarrow> database" where
  "staged dfs db = db\<lparr>stg_app_events_raw := df_app_events dfs, stg_customers_raw := df_customers dfs,
                      stg_subscriptions_raw := df_subscriptions dfs\<rparr>"

definition transform_all :: "tie_break \<Rightarrow> statement" where
  "transform_all tb db =
     (case transform_dim_customer db of
        (Some err, d1) \<Rightarrow> (Some err, d1)
      | (None, d1) \<Rightarrow>
          (case transform_dim_plan tb d1 of
             (Some err, d2) \<Rightarrow> (Some err, d2)
           | (None, d2) \<Rightarrow>
               (case transform_fact_app_usage d2 of
                  (Some err, d3) \<Rightarrow> (Some err, d3)
                | (None, d3) \<Rightarrow> transform_fact_subscription_events d3)))"

definition run_db :: "tie_break \<Rightarrow> source_files \<Rightarrow> database \<Rightarrow> database" where
  "run_db tb fs db =
     (case app_events_json fs of None \<Rightarrow> db | Some es \<Rightarrow>
      (case customers_csv fs of None \<Rightarrow> db | Some cs \<Rightarrow>
       (case subscriptions_csv fs of None \<Rightarrow> db | Some ss \<Rightarrow>
          if schema_sql fs
          then (case transform_all tb
                       (staged \<lparr>df_app_events = es, df_customers = cs, df_subscriptions = ss\<rparr> db) of
                  (None, d) \<Rightarrow> d
                | (Some err, d) \<Rightarrow> rollback_to db d)
          else db)))"

definition appends :: "'a action \<Rightarrow> bool" where
  "appends a = (\<forall>w. \<exists>rest. w_trace (snd (a w)) = w_trace w @ rest)"

section \<open>Example data\<close>

text \<open>
  Three subscriptions (two of the plan Pro/monthly with amounts 10 and 20, one Team/yearly
  with amount 120), two more Pro/monthly rows (one that ties at 20 in another currency, one
  with no amount), three customers, two events (one on a date the date dimension has, one
  on a date it has not), and a date dimension of two days.
\<close>

definition ex_sub :: "string \<Rightarrow> string \<Rightarrow> string \<Rightarrow> rat option \<Rightarrow> string \<Rightarrow> string \<Rightarrow> date \<Rightarrow> subscriptions_raw" where
  "ex_sub sid plan per amt cur st start =
     \<lparr>s_subscription_id = Some sid, s_plan_name = Some plan, s_period = Some per, s_amount = amt,
      s_currency = Some cur, s_status = Some st, s_start_date = Some start, s_end_date = None\<rparr>"

definition ex_pro_10 :: subscriptions_raw where
  "ex_pro_10 = ex_sub ''s1'' ''Pro'' ''monthly'' (Some 10) ''USD'' ''active'' (Date 2024 1 15)"

definition ex_pro_20 :: subscriptions_raw where
  "ex_pro_20 = ex_sub ''s2'' ''Pro'' ''monthly'' (Some 20) ''USD'' ''cancelled'' (Date 2024 2 1)"

definition ex_team_120 :: subscriptions_raw where
  "ex_team_120 = ex_sub ''s3'' ''Team'' ''yearly'' (Some 120) ''USD'' ''active'' (Date 2024 1 15)"

definition ex_pro_20_eur :: subscriptions_raw where
  "ex_pro_20_eur = ex_sub ''s4'' ''Pro'' ''monthly'' (Some 20) ''EUR'' ''active'' (Date 2024 1 15)"

definition ex_pro_null :: subscriptions_raw where
  "ex_pro_null = ex_sub ''s5'' ''Pro'' ''monthly'' None ''USD'' ''active'' (Date 2024 1 15)"

definition ex_cust :: "string \<Rightarrow> string \<Rightarrow> customers_raw" where
  "ex_cust cid sid =
     \<lparr>c_customer_id = Some cid, c_company_name = Some ''Acme'', c_country = None, c_address = None,
      c_signup_date = None, c_subscription_id = Some sid\<rparr>"

definition ex_event :: "timestamp \<Rightarrow> app_events_raw" where
  "ex_event ts =
     \<lparr>e_event_timestamp = Some ts, e_customer_id = Some ''c1'', e_event_type = Some ''login'',
      e_feature_name = None, e_metadata = Some [(''device'', Some ''ios'')]\<rparr>"

definition ex_dim_date :: "dim_date list" where
  "ex_dim_date = [\<lparr>d_date_key = 20240115, d_full_date = Date 2024 1 15\<rparr>,
                  \<lparr>d_date_key = 20240201, d_full_date = Date 2024 2 1\<rparr>]"

definition ex_empty_db :: database where
  "ex_empty_db =
     \<lparr>stg_app_events_raw = [], stg_customers_raw = [], stg_subscriptions_raw = [],
      analytics_dim_customer = [], analytics_dim_plan = [], analytics_dim_date = ex_dim_date,
      analytics_fact_app_usage = [], analytics_fact_subscription_events = [], dim_plan_key_seq = 1\<rparr>"

definition ex_staged_db :: database where
  "ex_staged_db = ex_empty_db
     \<lparr>stg_app_events_raw := [ex_event (Timestamp (Date 2024 1 15) 3600), ex_event (Timestamp (Date 2024 3 1) 0)],
      stg_customers_raw := [ex_cust ''c1'' ''s1'', ex_cust ''c2'' ''s2'', ex_cust ''c3'' ''s3''],
      stg_subscriptions_raw := [ex_pro_10, ex_pro_20, ex_team_120]\<rparr>"

definition ex_plans :: "dim_plan list" where
  "ex_plans = [\<lparr>p_plan_key = 1, p_plan_name = ''Pro'', p_period = ''monthly'',
                  p_base_amount = Some 20, p_currency = Some ''USD''\<rparr>,
               \<lparr>p_plan_key = 2, p_plan_name = ''Team'', p_period = ''yearly'',
                  p_base_amount = Some 120, p_currency = Some ''USD''\<rparr>]"

definition ex_db :: database where
  "ex_db = ex_staged_db\<lparr>analytics_dim_plan := ex_plans, dim_plan_key_seq := 3\<rparr>"

definition ex_row_s1 :: fact_subscription_events where
  "ex_row_s1 = \<lparr>fs_date_key = 20240115, fs_customer_id = Some ''c1'', fs_plan_key = 1,
     fs_subscription_id = Some ''s1'', fs_mrr_amount = Some 10, fs_churn_flag = Some False,
     fs_is_new_mrr_flag = Some True, fs_status = Some ''active''\<rparr>"

definition ex_row_s2 :: fact_subscription_events where
  "ex_row_s2 = \<lparr>fs_date_key = 20240201, fs_customer_id = Some ''c2'', fs_plan_key = 1,
     fs_subscription_id = Some ''s2'', fs_mrr_amount = Some 20, fs_churn_flag = Some True,
     fs_is_new_mrr_flag = Some True, fs_status = Some ''cancelled''\<rparr>"

definition ex_row_s3 :: fact_subscription_events where
  "ex_row_s3 = \<lparr>fs_date_key = 20240115, fs_customer_id = Some ''c3'', fs_plan_key = 2,
     fs_subscription_id = Some ''s3'', fs_mrr_amount = Some 10, fs_churn_flag = Some False,
     fs_is_new_mrr_flag = Some True, fs_status = Some ''active''\<rparr>"

definition ex_files :: source_files where
  "ex_files = \<lparr>app_events_json = Some (stg_app_events_raw ex_staged_db),
     customers_csv = Some (stg_customers_raw ex_staged_db),
     subscriptions_csv = Some (stg_subscriptions_raw ex_staged_db), schema_sql = True\<rparr>"

definition ex_tie_files :: source_files where
  "ex_tie_files = ex_files\<lparr>subscriptions_csv := Some [ex_pro_20, ex_pro_20_eur]\<rparr>"

definition ex_dup_files :: source_files where
  "ex_dup_files = ex_files\<lparr>customers_csv := Some [ex_cust ''c1'' ''s1'', ex_cust ''c1'' ''s2'']\<rparr>"

definition ex_world :: world where
  "ex_world = \<lparr>w_db = ex_empty_db, w_trace = []\<rparr>"

definition ex_null_db :: database where
  "ex_null_db = ex_empty_db\<lparr>stg_subscriptions_raw := [ex_pro_null, ex_pro_10]\<rparr>"

definition ex_tie_db :: database where
  "ex_tie_db = ex_empty_db\<lparr>stg_subscriptions_raw := [ex_pro_20, ex_pro_20_eur]\<rparr>"

definition ex_usage_row :: fact_app_usage where
  "ex_usage_row = \<lparr>fu_event_timestamp = Some (Timestamp (Date 2024 1 15) 3600), fu_date_key = 20240115,
      fu_customer_id = Some ''c1'', fu_event_type = Some ''login'', fu_feature_name = None,
      fu_device_type = Some ''ios''\<rparr>"

section \<open>The fact queries\<close>

lemma fact_subscription_events_select_iff:
  "r \<in> set (fact_subscription_events_select db) \<longleftrightarrow>
     (\<exists>s c p d. s \<in> set (stg_subscriptions_raw db) \<and> c \<in> set (stg_customers_raw db) \<and>
        customer_on s c \<and> p \<in> set (analytics_dim_plan db) \<and> plan_on s p \<and>
        d \<in> set (analytics_dim_date db) \<and> s_start_date s = Some (d_full_date d) \<and>
        r = subscription_event_row (details_row s c p) d)"
proof -
  have on: "date_on (details_row s c p) d \<longleftrightarrow> s_start_date s = Some (d_full_date d)" for s c p d
    by (auto simp: date_on_def details_row_def sql_true_def sql_eq_def split: option.splits)
  show ?thesis
    unfolding fact_subscription_events_select_def subscription_details_cte_def
    by (simp add: on) blast
qed

lemma transform_fact_subscription_events_rows:
  "transform_fact_subscription_events db = (res, db') \<Longrightarrow>
     res = None \<and> analytics_fact_subscription_events db' = fact_subscription_events_select db"
  by (auto simp: transform_fact_subscription_events_def Let_def fact_subscription_events_select_def
        subscription_details_cte_def)

lemma inserted_row:
  assumes "transform_fact_subscription_events db = (res, db')"
    and "r \<in> set (analytics_fact_subscription_events db')"
  shows "\<exists>s c p d. s \<in> set (stg_subscriptions_raw db) \<and> c \<in> set (stg_customers_raw db) \<and>
           p \<in> set (analytics_dim_plan db) \<and> d \<in> set (analytics_dim_date db) \<and>
           customer_on s c \<and> plan_on s p \<and> s_start_date s = Some (d_full_date d) \<and>
           r = subscription_event_row (details_row s c p) d"
  using assms transform_fact_subscription_events_rows[OF assms(1)]
  by (simp add: fact_subscription_events_select_iff) blast

lemma is_new_mrr_flag_row:
  "s_start_date s = Some x \<Longrightarrow>
   fs_is_new_mrr_flag (subscription_event_row (details_row s c p) d) = Some (same_calendar_month x (d_full_date d))"
  by (auto simp: subscription_event_row_def details_row_def sql_eq_def date_trunc_month_def same_calendar_month_def)

lemma churn_flag_row:
  "fs_churn_flag (subscription_event_row (details_row s c p) d) = Some True \<longleftrightarrow>
     (s_status s = Some ''cancelled'' \<or> s_end_date s \<noteq> None)"
  "s_status s = Some ''cancelled'' \<Longrightarrow> s_end_date s = None \<Longrightarrow> fs_churn_flag (subscription_event_row (details_row s c p) d) = Some True"
  "s_status s = Some ''active'' \<Longrightarrow> s_end_date s = None \<Longrightarrow> fs_churn_flag (subscription_event_row (details_row s c p) d) = Some False"
  by (auto simp: subscription_event_row_def details_row_def sql_or_def sql_eq_def is_not_null_def split: option.splits)

lemma mrr_amount_row:
  "fs_mrr_amount (subscription_event_row (details_row s c p) d) =
     (if s_period s = Some ''yearly'' then map_option (\<lambda>a. a / 12) (s_amount s) else s_amount s)"
  by (auto simp: subscription_event_row_def details_row_def mrr_amount_def sql_true_def sql_eq_def sql_div_def split: option.splits)

lemma filter_distinct_one:
  "distinct (map f xs) \<Longrightarrow> filter (\<lambda>x. f x = k) xs = (case find (\<lambda>x. f x = k) xs of None \<Rightarrow> [] | Some x \<Rightarrow> [x])"
proof (induction xs)
  case Nil then show ?case by simp
next
  case (Cons a xs)
  show ?case
  proof (cases "f a = k")
    case True
    from Cons.prems have "f a \<notin> f ` set xs" by simp
    with True have "\<forall>x\<in>set xs. f x \<noteq> k" by blast
    then have "filter (\<lambda>x. f x = k) xs = []" by (simp add: filter_empty_conv)
    with True show ?thesis by simp
  next
    case False
    with Cons show ?thesis by simp
  qed
qed

lemma app_usage_on_eq: "app_usage_on e = (\<lambda>d. d_full_date d = the (map_option ts_date (e_event_timestamp e)) \<and> e_event_timestamp e \<noteq> None)"
  by (auto simp: app_usage_on_def sql_true_def sql_eq_def fun_eq_iff split: option.splits)

lemma app_usage_matches:
  assumes "distinct (map d_full_date ds)"
  shows "map (app_usage_row e) (filter (app_usage_on e) ds) = (case find (app_usage_on e) ds of None \<Rightarrow> [] | Some d \<Rightarrow> [app_usage_row e d])"
proof (cases "e_event_timestamp e")
  case None
  then have "app_usage_on e = (\<lambda>d. False)" by (simp add: app_usage_on_eq)
  moreover have "find (\<lambda>d. False) ds = None" by (simp add: find_None_iff)
  ultimately show ?thesis by simp
next
  case (Some t)
  then have "app_usage_on e = (\<lambda>d. d_full_date d = ts_date t)" by (auto simp add: app_usage_on_eq)
  then show ?thesis using filter_distinct_one[OF assms, of "ts_date t"] by (simp split: option.splits)
qed

section \<open>Ranking and the plan upsert\<close>

lemma not_after_total: "not_after x y \<or> not_after y x"
  by (auto simp: not_after_def split: option.splits)

lemma not_after_trans: "not_after x y \<Longrightarrow> not_after y z \<Longrightarrow> not_after x z"
  by (auto simp: not_after_def split: option.splits)

lemma not_after_antisym: "not_after x y \<Longrightarrow> not_after y x \<Longrightarrow> s_amount x = s_amount y"
  by (auto simp: not_after_def split: option.splits)

lemma exists_first: "g \<noteq> [] \<Longrightarrow> \<exists>x\<in>set g. \<forall>y\<in>set g. not_after x y"
proof (induction g)
  case Nil then show ?case by simp
next
  case (Cons a g)
  show ?case
  proof (cases "g = []")
    case True
    then show ?thesis using not_after_total[of a a] by simp
  next
    case False
    with Cons.IH obtain m where m: "m \<in> set g" "\<forall>y\<in>set g. not_after m y" by blast
    have aa: "not_after a a" using not_after_total[of a a] by simp
    show ?thesis
    proof (cases "not_after a m")
      case True
      with m(2) have "\<forall>y\<in>set g. not_after a y" by (blast intro: not_after_trans)
      with aa show ?thesis by simp
    next
      case False
      then have "not_after m a" using not_after_total[of a m] by simp
      with m show ?thesis by auto
    qed
  qed
qed

lemma first_peers_iff: "x \<in> set (first_peers g) \<longleftrightarrow> x \<in> set g \<and> (\<forall>y\<in>set g. not_after x y)"
  by (auto simp: first_peers_def list_all_iff)

lemma first_peers_nonempty: "g \<noteq> [] \<Longrightarrow> first_peers g \<noteq> []"
proof -
  assume "g \<noteq> []"
  then obtain x where "x \<in> set (first_peers g)"
    using exists_first[of g] by (auto simp: first_peers_iff)
  then show ?thesis by auto
qed

lemma rn_1_single: "g \<noteq> [] \<Longrightarrow> \<exists>x. rn_1 tb g = [x] \<and> x \<in> set (first_peers g)"
  using first_peers_nonempty[of g]
  by (simp add: rn_1_def Let_def)

lemma partition_rows_nonempty: "k \<in> set (map partition_key ss) \<Longrightarrow> partition_rows k ss \<noteq> []"
  by (auto simp: partition_rows_def filter_empty_conv)

lemma rn_1_partition:
  assumes "k \<in> set (map partition_key ss)"
  obtains x where "rn_1 tb (partition_rows k ss) = [x]" "x \<in> set ss" "partition_key x = k"
    "\<forall>y\<in>set ss. partition_key y = k \<longrightarrow> not_after x y"
proof -
  from partition_rows_nonempty[OF assms] rn_1_single
  obtain x where x: "rn_1 tb (partition_rows k ss) = [x]" "x \<in> set (first_peers (partition_rows k ss))"
    by blast
  from x(2) have "x \<in> set ss" "partition_key x = k" "\<forall>y\<in>set ss. partition_key y = k \<longrightarrow> not_after x y"
    by (auto simp: first_peers_iff partition_rows_def)
  with x(1) show thesis by (rule that)
qed

lemma map_concat_singletons:
  "(\<And>k. k \<in> set ks \<Longrightarrow> \<exists>x. F k = [x] \<and> h x = k) \<Longrightarrow> map h (concat (map F ks)) = ks"
proof (induction ks)
  case Nil then show ?case by simp
next
  case (Cons a ks)
  from Cons.prems[of a] obtain x where "F a = [x]" "h x = a" by auto
  moreover have "map h (concat (map F ks)) = ks" using Cons by simp
  ultimately show ?case by simp
qed

lemma ranked_keys: "map partition_key (ranked_subscriptions_rn_1 tb ss) = remdups (map partition_key ss)"
  unfolding ranked_subscriptions_rn_1_def
proof (rule map_concat_singletons)
  fix k assume "k \<in> set (remdups (map partition_key ss))"
  then have "k \<in> set (map partition_key ss)" by simp
  then obtain x where "rn_1 tb (partition_rows k ss) = [x]" "partition_key x = k"
    by (rule rn_1_partition)
  then show "\<exists>x. rn_1 tb (partition_rows k ss) = [x] \<and> partition_key x = k" by blast
qed

lemma ranked_distinct: "distinct (map partition_key (ranked_subscriptions_rn_1 tb ss))"
  by (simp add: ranked_keys)

lemma ranked_first:
  assumes "x \<in> set (ranked_subscriptions_rn_1 tb ss)"
  shows "x \<in> set ss \<and> (\<forall>y\<in>set ss. partition_key y = partition_key x \<longrightarrow> not_after x y)"
proof -
  from assms have "\<exists>k. k \<in> set (map partition_key ss) \<and> x \<in> set (rn_1 tb (partition_rows k ss))"
    unfolding ranked_subscriptions_rn_1_def by auto
  then obtain k where k: "k \<in> set (map partition_key ss)" "x \<in> set (rn_1 tb (partition_rows k ss))"
    by blast
  from k(1) obtain x' where "rn_1 tb (partition_rows k ss) = [x']" "x' \<in> set ss" "partition_key x' = k"
    "\<forall>y\<in>set ss. partition_key y = k \<longrightarrow> not_after x' y" by (rule rn_1_partition)
  with k(2) show ?thesis by simp
qed

lemma ranked_covers:
  assumes "s \<in> set ss"
  shows "\<exists>x\<in>set (ranked_subscriptions_rn_1 tb ss). partition_key x = partition_key s"
proof -
  have "partition_key s \<in> set (map partition_key (ranked_subscriptions_rn_1 tb ss))"
    using assms by (simp add: ranked_keys)
  then show ?thesis by auto
qed

lemma map_concat_cong:
  "(\<And>k. k \<in> set ks \<Longrightarrow> map h (F k) = map h (G k)) \<Longrightarrow>
   map h (concat (map F ks)) = map h (concat (map G ks))"
  by (induction ks) auto

lemma ranked_amounts_tb:
  "map (\<lambda>s. (partition_key s, s_amount s)) (ranked_subscriptions_rn_1 tb1 ss) =
   map (\<lambda>s. (partition_key s, s_amount s)) (ranked_subscriptions_rn_1 tb2 ss)"
proof -
  have "map (\<lambda>s. (partition_key s, s_amount s)) (rn_1 tb1 (partition_rows k ss)) =
        map (\<lambda>s. (partition_key s, s_amount s)) (rn_1 tb2 (partition_rows k ss))"
    if "k \<in> set (remdups (map partition_key ss))" for k
  proof -
    from that have k: "k \<in> set (map partition_key ss)" by simp
    from k obtain x1 where x1: "rn_1 tb1 (partition_rows k ss) = [x1]" "x1 \<in> set ss" "partition_key x1 = k"
      "\<forall>y\<in>set ss. partition_key y = k \<longrightarrow> not_after x1 y" by (rule rn_1_partition)
    from k obtain x2 where x2: "rn_1 tb2 (partition_rows k ss) = [x2]" "x2 \<in> set ss" "partition_key x2 = k"
      "\<forall>y\<in>set ss. partition_key y = k \<longrightarrow> not_after x2 y" by (rule rn_1_partition)
    have "s_amount x1 = s_amount x2"
      using x1 x2 by (blast intro: not_after_antisym)
    with x1 x2 show ?thesis by simp
  qed
  then show ?thesis
    unfolding ranked_subscriptions_rn_1_def by (rule map_concat_cong)
qed

lemma set_map_filter_amount:
  "set (List.map_filter f xs) = {y. \<exists>x\<in>set xs. f x = Some y}"
  by (induction xs) (auto simp: List.map_filter_simps split: option.splits)

lemma first_amount:
  assumes "x \<in> set g" and "\<forall>y\<in>set g. not_after x y"
  shows "s_amount x = (if None \<in> set (map s_amount g) then None
                       else Some (Max (set (List.map_filter s_amount g))))"
proof (cases "None \<in> set (map s_amount g)")
  case True
  then obtain y where "y \<in> set g" "s_amount y = None" by force
  with assms(2) have "s_amount x = None"
    by (auto simp: not_after_def split: option.splits)
  with True show ?thesis by simp
next
  case False
  with assms(1) obtain a where a: "s_amount x = Some a" by (cases "s_amount x") force+
  have "Max (set (List.map_filter s_amount g)) = a"
  proof (rule Max_eqI)
    show "finite (set (List.map_filter s_amount g))" by simp
    show "a \<in> set (List.map_filter s_amount g)" using assms(1) a by (auto simp: set_map_filter_amount)
    fix b assume "b \<in> set (List.map_filter s_amount g)"
    then obtain y where "y \<in> set g" "s_amount y = Some b" by (auto simp: set_map_filter_amount)
    with assms(2) a show "b \<le> a" by (auto simp: not_after_def split: option.splits)
  qed
  with a False show ?thesis by simp
qed

lemma plan_id_excluded [simp]: "plan_id (plan_excluded s r) = plan_id r"
  by (simp add: plan_id_def plan_excluded_def)

lemma plan_id_inserted [simp]: "plan_id (plan_inserted key n q s) = (n, q)"
  by (simp add: plan_id_def plan_inserted_def)

lemma plan_update_filter:
  "filter (\<lambda>r. plan_id r = k) (map (\<lambda>r. if plan_id r = j then plan_excluded s r else r) tbl) =
   map (\<lambda>r. if plan_id r = j then plan_excluded s r else r) (filter (\<lambda>r. plan_id r = k) tbl)"
  by (induction tbl) auto

lemma plan_update_other:
  "j \<noteq> k \<Longrightarrow>
   filter (\<lambda>r. plan_id r = k) (map (\<lambda>r. if plan_id r = j then plan_excluded s r else r) tbl) =
   filter (\<lambda>r. plan_id r = k) tbl"
  by (induction tbl) auto

lemma upsert_dim_plan_Cons:
  "partition_key x = (Some n, Some q) \<Longrightarrow>
   upsert_dim_plan (x # xs) seq tbl = upsert_dim_plan xs (Suc seq) (plan_step x (n, q) seq tbl)"
  by (simp add: partition_key_def)

lemma upsert_dim_plan_Cons_ok:
  assumes "upsert_dim_plan (x # xs) seq tbl = (None, seq', tbl')"
  obtains n q where "partition_key x = (Some n, Some q)"
    "upsert_dim_plan xs (Suc seq) (plan_step x (n, q) seq tbl) = (None, seq', tbl')"
proof -
  from assms obtain n q where k: "partition_key x = (Some n, Some q)"
    by (auto simp: partition_key_def split: option.splits)
  from assms have "upsert_dim_plan xs (Suc seq) (plan_step x (n, q) seq tbl) = (None, seq', tbl')"
    unfolding upsert_dim_plan_Cons[OF k] .
  with k show thesis by (rule that)
qed

lemma plan_step_other:
  "j \<noteq> k \<Longrightarrow> filter (\<lambda>r. plan_id r = k) (plan_step s j seq tbl) = filter (\<lambda>r. plan_id r = k) tbl"
  by (cases j) (simp add: plan_step_def plan_update_other)

lemma plan_step_same:
  assumes "r \<in> set (plan_step s k seq tbl)" and "plan_id r = k"
  shows "p_base_amount r = s_amount s \<and> p_currency r = s_currency s"
proof (cases "k \<in> set (map plan_id tbl)")
  case True
  with assms show ?thesis by (auto simp: plan_step_def plan_excluded_def split: if_splits)
next
  case False
  then have "\<forall>r\<in>set tbl. plan_id r \<noteq> k" by auto
  with False assms show ?thesis by (cases k) (auto simp: plan_step_def plan_inserted_def)
qed

lemma plan_step_length:
  "length (filter (\<lambda>r. plan_id r = k) tbl) \<le> 1 \<Longrightarrow>
   length (filter (\<lambda>r. plan_id r = k) (plan_step s k seq tbl)) = 1"
proof (cases "k \<in> set (map plan_id tbl)")
  case True
  assume le: "length (filter (\<lambda>r. plan_id r = k) tbl) \<le> 1"
  from True have "filter (\<lambda>r. plan_id r = k) tbl \<noteq> []" by (auto simp: filter_empty_conv)
  with le have "length (filter (\<lambda>r. plan_id r = k) tbl) = 1"
    by (cases "filter (\<lambda>r. plan_id r = k) tbl") auto
  with True show ?thesis by (simp add: plan_step_def plan_update_filter)
next
  case False
  then have "filter (\<lambda>r. plan_id r = k) tbl = []" by (auto simp: filter_empty_conv)
  with False show ?thesis by (cases k) (simp add: plan_step_def)
qed

lemma plan_update_ids:
  "map plan_id (map (\<lambda>r. if plan_id r = k then plan_excluded s r else r) tbl) = map plan_id tbl"
  by (induction tbl) auto

lemma plan_step_ids: "set (map plan_id (plan_step s k seq tbl)) = insert k (set (map plan_id tbl))"
proof (cases "k \<in> set (map plan_id tbl)")
  case True
  then have "plan_step s k seq tbl = map (\<lambda>r. if plan_id r = k then plan_excluded s r else r) tbl"
    by (simp add: plan_step_def)
  then have "map plan_id (plan_step s k seq tbl) = map plan_id tbl"
    by (simp only: plan_update_ids)
  with True show ?thesis by (simp only: insert_absorb)
next
  case False
  then show ?thesis by (cases k) (simp add: plan_step_def)
qed

lemma plan_step_key: "k \<in> set (map plan_id (plan_step s k seq tbl))"
  by (simp only: plan_step_ids insertI1)

lemma plan_step_keeps: "j \<in> set (map plan_id tbl) \<Longrightarrow> j \<in> set (map plan_id (plan_step s k seq tbl))"
  by (simp only: plan_step_ids insertI2)

lemma upsert_dim_plan_frame:
  "upsert_dim_plan xs seq tbl = (None, seq', tbl') \<Longrightarrow>
   (Some n, Some q) \<notin> set (map partition_key xs) \<Longrightarrow>
   filter (\<lambda>r. plan_id r = (n, q)) tbl' = filter (\<lambda>r. plan_id r = (n, q)) tbl"
proof (induction xs arbitrary: seq tbl)
  case Nil then show ?case by simp
next
  case (Cons x xs)
  from Cons.prems(1) obtain m u where k: "partition_key x = (Some m, Some u)"
    and rest: "upsert_dim_plan xs (Suc seq) (plan_step x (m, u) seq tbl) = (None, seq', tbl')"
    by (rule upsert_dim_plan_Cons_ok)
  from Cons.prems(2) k have ne: "(m, u) \<noteq> (n, q)"
    and nxs: "(Some n, Some q) \<notin> set (map partition_key xs)" by auto
  from Cons.IH[OF rest nxs] ne show ?case by (simp add: plan_step_other)
qed

lemma upsert_dim_plan_keeps:
  "upsert_dim_plan xs seq tbl = (None, seq', tbl') \<Longrightarrow>
   j \<in> set (map plan_id tbl) \<Longrightarrow> j \<in> set (map plan_id tbl')"
proof (induction xs arbitrary: seq tbl)
  case Nil then show ?case by simp
next
  case (Cons x xs)
  from Cons.prems(1) obtain m u where k: "partition_key x = (Some m, Some u)"
    and rest: "upsert_dim_plan xs (Suc seq) (plan_step x (m, u) seq tbl) = (None, seq', tbl')"
    by (rule upsert_dim_plan_Cons_ok)
  from Cons.IH[OF rest plan_step_keeps[OF Cons.prems(2)]] show ?case .
qed

lemma upsert_dim_plan_hit:
  "upsert_dim_plan xs seq tbl = (None, seq', tbl') \<Longrightarrow> distinct (map partition_key xs) \<Longrightarrow>
   x \<in> set xs \<Longrightarrow> partition_key x = (Some n, Some q) \<Longrightarrow>
   length (filter (\<lambda>r. plan_id r = (n, q)) tbl) \<le> 1 \<Longrightarrow>
   \<exists>r. filter (\<lambda>r. plan_id r = (n, q)) tbl' = [r] \<and> p_base_amount r = s_amount x \<and> p_currency r = s_currency x"
proof (induction xs arbitrary: seq tbl)
  case Nil then show ?case by simp
next
  case (Cons a xs)
  from Cons.prems(1) obtain m u where k: "partition_key a = (Some m, Some u)"
    and rest: "upsert_dim_plan xs (Suc seq) (plan_step a (m, u) seq tbl) = (None, seq', tbl')"
    by (rule upsert_dim_plan_Cons_ok)
  from Cons.prems(2) have dist: "distinct (map partition_key xs)"
    and anot: "partition_key a \<notin> set (map partition_key xs)" by auto
  show ?case
  proof (cases "x = a")
    case True
    with Cons.prems(4) k have mu: "(m, u) = (n, q)" by simp
    from anot k mu have "(Some n, Some q) \<notin> set (map partition_key xs)" by simp
    from upsert_dim_plan_frame[OF rest this]
    have fr: "filter (\<lambda>r. plan_id r = (n, q)) tbl' =
              filter (\<lambda>r. plan_id r = (n, q)) (plan_step a (n, q) seq tbl)" using mu by simp
    from plan_step_length[OF Cons.prems(5)] fr
    have "length (filter (\<lambda>r. plan_id r = (n, q)) tbl') = 1" by simp
    then obtain r where r: "filter (\<lambda>r. plan_id r = (n, q)) tbl' = [r]"
      by (cases "filter (\<lambda>r. plan_id r = (n, q)) tbl'") auto
    then have "r \<in> set (filter (\<lambda>r. plan_id r = (n, q)) (plan_step a (n, q) seq tbl))"
      using fr by simp
    then have "p_base_amount r = s_amount a \<and> p_currency r = s_currency a"
      using plan_step_same[of r a "(n, q)" seq tbl] by simp
    with r True show ?thesis by blast
  next
    case False
    with Cons.prems(3) have xin: "x \<in> set xs" by simp
    with anot Cons.prems(4) have "partition_key a \<noteq> (Some n, Some q)" by force
    with k have ne: "(m, u) \<noteq> (n, q)" by auto
    with Cons.prems(5) have "length (filter (\<lambda>r. plan_id r = (n, q)) (plan_step a (m, u) seq tbl)) \<le> 1"
      by (simp add: plan_step_other)
    from Cons.IH[OF rest dist xin Cons.prems(4) this] show ?thesis .
  qed
qed

lemma upsert_dim_plan_idem:
  "upsert_dim_plan xs seq tbl = (None, seq', tbl') \<Longrightarrow> distinct (map partition_key xs) \<Longrightarrow>
   \<exists>seq''. upsert_dim_plan xs seq2 tbl' = (None, seq'', tbl')"
proof (induction xs arbitrary: seq tbl seq2)
  case Nil then show ?case by simp
next
  case (Cons a xs)
  from Cons.prems(1) obtain m u where k: "partition_key a = (Some m, Some u)"
    and rest: "upsert_dim_plan xs (Suc seq) (plan_step a (m, u) seq tbl) = (None, seq', tbl')"
    by (rule upsert_dim_plan_Cons_ok)
  from Cons.prems(2) have dist: "distinct (map partition_key xs)"
    and anot: "(Some m, Some u) \<notin> set (map partition_key xs)" using k by auto
  have key_in: "(m, u) \<in> set (map plan_id tbl')"
    using upsert_dim_plan_keeps[OF rest plan_step_key] .
  have fr: "filter (\<lambda>r. plan_id r = (m, u)) tbl' =
            filter (\<lambda>r. plan_id r = (m, u)) (plan_step a (m, u) seq tbl)"
    using upsert_dim_plan_frame[OF rest anot] .
  have same: "plan_excluded a r = r" if "r \<in> set tbl'" "plan_id r = (m, u)" for r
  proof -
    from that have "r \<in> set (filter (\<lambda>r. plan_id r = (m, u)) tbl')" by simp
    with fr have "r \<in> set (plan_step a (m, u) seq tbl)" by simp
    from plan_step_same[OF this that(2)] show ?thesis by (simp add: plan_excluded_def)
  qed
  have "plan_step a (m, u) seq2 tbl' = tbl'"
    using key_in same by (simp add: plan_step_def map_idI)
  moreover from Cons.IH[OF rest dist] obtain seq'' where
    "upsert_dim_plan xs (Suc seq2) tbl' = (None, seq'', tbl')" by blast
  ultimately show ?case unfolding upsert_dim_plan_Cons[OF k] by simp
qed

lemma upsert_dim_plan_error:
  "map partition_key xs = map partition_key ys \<Longrightarrow>
   fst (upsert_dim_plan xs seq tbl) = fst (upsert_dim_plan ys seq2 tbl2)"
proof (induction xs arbitrary: ys seq tbl seq2 tbl2)
  case Nil then show ?case by simp
next
  case (Cons x xs)
  then obtain y ys' where ys: "ys = y # ys'" "partition_key x = partition_key y"
    "map partition_key xs = map partition_key ys'" by (cases ys) auto
  show ?case
  proof (cases "\<exists>n q. partition_key x = (Some n, Some q)")
    case True
    then obtain n q where k: "partition_key x = (Some n, Some q)" by blast
    with ys have ky: "partition_key y = (Some n, Some q)" by simp
    show ?thesis
      unfolding ys(1) upsert_dim_plan_Cons[OF k] upsert_dim_plan_Cons[OF ky]
      by (rule Cons.IH[OF ys(3)])
  next
    case False
    with ys show ?thesis by (auto simp: partition_key_def split: option.splits)
  qed
qed

lemma plan_step_without_currency:
  assumes "s_amount x = s_amount y" and "map without_currency tbl = map without_currency tbl2"
  shows "map without_currency (plan_step x k seq tbl) = map without_currency (plan_step y k seq tbl2)"
proof -
  have ids: "map plan_id tbl = map plan_id tbl2"
  proof -
    have "plan_id = (\<lambda>t. (fst (snd t), fst (snd (snd t)))) \<circ> without_currency"
      by (auto simp: plan_id_def without_currency_def fun_eq_iff)
    then have "map plan_id tbl = map (\<lambda>t. (fst (snd t), fst (snd (snd t)))) (map without_currency tbl)"
      and "map plan_id tbl2 = map (\<lambda>t. (fst (snd t), fst (snd (snd t)))) (map without_currency tbl2)"
      by simp_all
    with assms(2) show ?thesis by simp
  qed
  have upd: "map without_currency (map (\<lambda>r. if plan_id r = k then plan_excluded s r else r) t) =
        map (\<lambda>t. if (fst (snd t), fst (snd (snd t))) = k then (fst t, fst (snd t), fst (snd (snd t)), s_amount s) else t)
          (map without_currency t)" for s t
    by (induction t) (auto simp: without_currency_def plan_id_def plan_excluded_def)
  show ?thesis
  proof (cases "k \<in> set (map plan_id tbl)")
    case True
    with ids have "k \<in> set (map plan_id tbl2)" by simp
    with True show ?thesis using assms by (simp add: plan_step_def upd del: map_map)
  next
    case False
    with ids have "k \<notin> set (map plan_id tbl2)" by simp
    with False show ?thesis using assms
      by (cases k) (simp add: plan_step_def without_currency_def plan_inserted_def)
  qed
qed

lemma upsert_dim_plan_without_currency:
  "map (\<lambda>s. (partition_key s, s_amount s)) xs = map (\<lambda>s. (partition_key s, s_amount s)) ys \<Longrightarrow>
   map without_currency tbl = map without_currency tbl2 \<Longrightarrow>
   fst (upsert_dim_plan xs seq tbl) = fst (upsert_dim_plan ys seq tbl2) \<and>
   fst (snd (upsert_dim_plan xs seq tbl)) = fst (snd (upsert_dim_plan ys seq tbl2)) \<and>
   map without_currency (snd (snd (upsert_dim_plan xs seq tbl))) =
   map without_currency (snd (snd (upsert_dim_plan ys seq tbl2)))"
proof (induction xs arbitrary: ys seq tbl tbl2)
  case Nil then show ?case by simp
next
  case (Cons x xs)
  then obtain y ys' where ys: "ys = y # ys'" "partition_key x = partition_key y" "s_amount x = s_amount y"
    "map (\<lambda>s. (partition_key s, s_amount s)) xs = map (\<lambda>s. (partition_key s, s_amount s)) ys'"
    by (cases ys) auto
  show ?case
  proof (cases "\<exists>n q. partition_key x = (Some n, Some q)")
    case True
    then obtain n q where k: "partition_key x = (Some n, Some q)" by blast
    from plan_step_without_currency[OF ys(3) Cons.prems(2)]
    have st: "map without_currency (plan_step x (n, q) seq tbl) = map without_currency (plan_step y (n, q) seq tbl2)" .
    from k ys have ky: "partition_key y = (Some n, Some q)" by simp
    show ?thesis
      unfolding ys(1) upsert_dim_plan_Cons[OF k] upsert_dim_plan_Cons[OF ky]
      by (rule Cons.IH[OF ys(4) st])
  next
    case False
    with ys Cons.prems(2) show ?thesis by (auto simp: partition_key_def split: option.splits)
  qed
qed

lemma customer_id_excluded [simp]: "dc_customer_id (customer_excluded c r) = dc_customer_id r"
  by (simp add: customer_excluded_def)

lemma customer_id_inserted [simp]: "dc_customer_id (customer_inserted k c) = k"
  by (simp add: customer_inserted_def)

lemma customer_excluded_twice [simp]: "customer_excluded c (customer_excluded c r) = customer_excluded c r"
  by (simp add: customer_excluded_def)

lemma customer_excluded_inserted [simp]: "customer_excluded c (customer_inserted k c) = customer_inserted k c"
  by (simp add: customer_excluded_def customer_inserted_def)

lemma customer_update_other:
  "j \<noteq> k \<Longrightarrow>
   filter (\<lambda>r. dc_customer_id r = k) (map (\<lambda>r. if dc_customer_id r = j then customer_excluded c r else r) tbl) =
   filter (\<lambda>r. dc_customer_id r = k) tbl"
  by (induction tbl) auto

lemma customer_step_other:
  "j \<noteq> k \<Longrightarrow> filter (\<lambda>r. dc_customer_id r = k) (customer_step c j tbl) = filter (\<lambda>r. dc_customer_id r = k) tbl"
  by (simp add: customer_step_def customer_update_other)

lemma customer_step_same:
  assumes "r \<in> set (customer_step c k tbl)" and "dc_customer_id r = k"
  shows "customer_excluded c r = r"
proof (cases "k \<in> set (map dc_customer_id tbl)")
  case True
  with assms(1) obtain x where x: "x \<in> set tbl"
    "r = (if dc_customer_id x = k then customer_excluded c x else x)"
    by (auto simp: customer_step_def)
  show ?thesis
  proof (cases "dc_customer_id x = k")
    case True
    with x(2) have "r = customer_excluded c x" by simp
    then show ?thesis by (simp only: customer_excluded_twice)
  next
    case False
    with x(2) assms(2) show ?thesis by simp
  qed
next
  case False
  then have no: "\<forall>r\<in>set tbl. dc_customer_id r \<noteq> k" by auto
  from False assms(1) have "r \<in> set tbl \<or> r = customer_inserted k c"
    by (auto simp: customer_step_def)
  with no assms(2) have "r = customer_inserted k c" by blast
  then show ?thesis by (simp only: customer_excluded_inserted)
qed

lemma customer_update_ids:
  "map dc_customer_id (map (\<lambda>r. if dc_customer_id r = k then customer_excluded c r else r) tbl) = map dc_customer_id tbl"
  by (induction tbl) auto

lemma customer_step_ids:
  "set (map dc_customer_id (customer_step c k tbl)) = insert k (set (map dc_customer_id tbl))"
proof (cases "k \<in> set (map dc_customer_id tbl)")
  case True
  then have "customer_step c k tbl = map (\<lambda>r. if dc_customer_id r = k then customer_excluded c r else r) tbl"
    by (simp add: customer_step_def)
  then have "map dc_customer_id (customer_step c k tbl) = map dc_customer_id tbl"
    by (simp only: customer_update_ids)
  with True show ?thesis by (simp only: insert_absorb)
next
  case False
  then show ?thesis by (simp add: customer_step_def)
qed

lemma upsert_dim_customer_Cons:
  "c_customer_id c = Some k \<Longrightarrow> k \<notin> set seen \<Longrightarrow>
   upsert_dim_customer (c # cs) seen tbl = upsert_dim_customer cs (k # seen) (customer_step c k tbl)"
  by simp

lemma upsert_dim_customer_Cons_ok:
  assumes "upsert_dim_customer (c # cs) seen tbl = Inr tbl'"
  obtains k where "c_customer_id c = Some k" "k \<notin> set seen"
    "upsert_dim_customer cs (k # seen) (customer_step c k tbl) = Inr tbl'"
  using assms by (auto split: option.splits if_splits)

lemma upsert_dim_customer_frame:
  "upsert_dim_customer cs seen tbl = Inr tbl' \<Longrightarrow> k \<in> set seen \<Longrightarrow>
   filter (\<lambda>r. dc_customer_id r = k) tbl' = filter (\<lambda>r. dc_customer_id r = k) tbl"
proof (induction cs arbitrary: seen tbl)
  case Nil then show ?case by simp
next
  case (Cons c cs)
  from Cons.prems(1) obtain j where j: "c_customer_id c = Some j" "j \<notin> set seen"
    and rest: "upsert_dim_customer cs (j # seen) (customer_step c j tbl) = Inr tbl'"
    by (rule upsert_dim_customer_Cons_ok)
  from j(2) Cons.prems(2) have ne: "j \<noteq> k" by auto
  from Cons.prems(2) have "k \<in> set (j # seen)" by simp
  from Cons.IH[OF rest this] ne show ?case by (simp add: customer_step_other)
qed

lemma upsert_dim_customer_keeps:
  "upsert_dim_customer cs seen tbl = Inr tbl' \<Longrightarrow>
   j \<in> set (map dc_customer_id tbl) \<Longrightarrow> j \<in> set (map dc_customer_id tbl')"
proof (induction cs arbitrary: seen tbl)
  case Nil then show ?case by simp
next
  case (Cons c cs)
  from Cons.prems(1) obtain k where k: "c_customer_id c = Some k" "k \<notin> set seen"
    and rest: "upsert_dim_customer cs (k # seen) (customer_step c k tbl) = Inr tbl'"
    by (rule upsert_dim_customer_Cons_ok)
  from Cons.prems(2) have "j \<in> set (map dc_customer_id (customer_step c k tbl))"
    by (simp only: customer_step_ids insertI2)
  from Cons.IH[OF rest this] show ?case .
qed

lemma upsert_dim_customer_idem:
  "upsert_dim_customer cs seen tbl = Inr tbl' \<Longrightarrow> upsert_dim_customer cs seen tbl' = Inr tbl'"
proof (induction cs arbitrary: seen tbl)
  case Nil then show ?case by simp
next
  case (Cons c cs)
  from Cons.prems(1) obtain k where k: "c_customer_id c = Some k" "k \<notin> set seen"
    and rest: "upsert_dim_customer cs (k # seen) (customer_step c k tbl) = Inr tbl'"
    by (rule upsert_dim_customer_Cons_ok)
  have "k \<in> set (map dc_customer_id (customer_step c k tbl))"
    by (simp only: customer_step_ids insertI1)
  from upsert_dim_customer_keeps[OF rest this] have key_in: "k \<in> set (map dc_customer_id tbl')" .
  have fr: "filter (\<lambda>r. dc_customer_id r = k) tbl' = filter (\<lambda>r. dc_customer_id r = k) (customer_step c k tbl)"
    using upsert_dim_customer_frame[OF rest, of k] by simp
  have same: "customer_excluded c r = r" if "r \<in> set tbl'" "dc_customer_id r = k" for r
  proof -
    from that have "r \<in> set (filter (\<lambda>r. dc_customer_id r = k) tbl')" by simp
    with fr have "r \<in> set (customer_step c k tbl)" by simp
    from customer_step_same[OF this that(2)] show ?thesis .
  qed
  have "customer_step c k tbl' = tbl'"
    using key_in same by (simp add: customer_step_def map_idI)
  with Cons.IH[OF rest] show ?case unfolding upsert_dim_customer_Cons[OF k] by simp
qed

lemma upsert_dim_customer_error:
  "(upsert_dim_customer cs seen tbl = Inl err) = (upsert_dim_customer cs seen tbl2 = Inl err)"
proof (induction cs arbitrary: seen tbl tbl2)
  case Nil then show ?case by simp
next
  case (Cons c cs)
  show ?case
  proof (cases "\<exists>k. c_customer_id c = Some k \<and> k \<notin> set seen")
    case True
    then obtain k where k: "c_customer_id c = Some k" "k \<notin> set seen" by blast
    show ?thesis unfolding upsert_dim_customer_Cons[OF k] by (rule Cons.IH)
  next
    case False
    then show ?thesis by (auto split: option.splits)
  qed
qed

section \<open>What a run leaves in the database\<close>

lemma w_db_emit [simp]: "w_db (emit ev w) = w_db w"
  by (simp add: emit_def)

lemma w_trace_emit [simp]: "w_trace (emit ev w) = w_trace w @ [ev]"
  by (simp add: emit_def)

lemma in_transaction_ok:
  "body (emit Begin w) = (Inr x, w1) \<Longrightarrow> in_transaction body w = (Inr x, emit Commit w1)"
  by (simp add: in_transaction_def Let_def)

lemma in_transaction_fail:
  "body (emit Begin w) = (Inl err, w1) \<Longrightarrow>
   in_transaction body w = (Inl err, emit Rollback (w1\<lparr>w_db := rollback_to (w_db w) (w_db w1)\<rparr>))"
  by (simp add: in_transaction_def Let_def)

lemma extract_data_from_files_ok:
  assumes "app_events_json fs = Some es" "customers_csv fs = Some cs" "subscriptions_csv fs = Some ss"
  shows "extract_data_from_files fs w =
           (Inr \<lparr>df_app_events = es, df_customers = cs, df_subscriptions = ss\<rparr>,
            w\<lparr>w_trace := w_trace w @ [ReadFile ''./sample_data/app_events.json'',
                                      ReadFile ''./sample_data/customers.csv'',
                                      ReadFile ''./sample_data/subscriptions.csv'']\<rparr>)"
  by (simp add: extract_data_from_files_def assms and_then_def read_file_def emit_def)

lemma extract_data_from_files_fail:
  assumes "app_events_json fs = None \<or> customers_csv fs = None \<or> subscriptions_csv fs = None"
  shows "\<exists>err w1. extract_data_from_files fs w = (Inl err, w1) \<and> w_db w1 = w_db w"
  using assms
  by (auto simp: extract_data_from_files_def and_then_def read_file_def emit_def split: option.splits)

lemma load_data_to_staging_with_sql_ok:
  "load_data_to_staging_with_sql dfs w =
     (Inr (), \<lparr>w_db = staged dfs (w_db w),
               w_trace = w_trace w @ [Truncate ''app_events_raw'', ToSql ''app_events_raw'',
                                      Truncate ''customers_raw'', ToSql ''customers_raw'',
                                      Truncate ''subscriptions_raw'', ToSql ''subscriptions_raw'']\<rparr>)"
  by (simp add: load_data_to_staging_with_sql_def and_then_def execute_def Let_def emit_def staged_def)

lemma create_schema_ok:
  "schema_sql fs \<Longrightarrow>
   create_schema fs w = (Inr (), w\<lparr>w_trace := w_trace w @ [ReadFile ''schema/schema.sql'', ExecuteSchema]\<rparr>)"
  by (simp add: create_schema_def and_then_def read_file_def execute_def Let_def emit_def)

lemma create_schema_fail:
  "\<not> schema_sql fs \<Longrightarrow>
   create_schema fs w = (Inl (FileError ''schema/schema.sql''), emit (ReadFile ''schema/schema.sql'') w)"
  by (simp add: create_schema_def and_then_def read_file_def)

lemma transform_data_in_analytics_db:
  "w_db (snd (transform_data_in_analytics tb w)) = snd (transform_all tb (w_db w)) \<and>
   fst (transform_data_in_analytics tb w) =
     (case fst (transform_all tb (w_db w)) of None \<Rightarrow> Inr () | Some err \<Rightarrow> Inl err)"
  by (simp add: transform_data_in_analytics_def transform_order_def and_then_def execute_def Let_def
        transform_all_def split: prod.splits option.splits)

lemma load_and_transform_result:
  fixes tb dfs w
  defines "body \<equiv> and_then (load_data_to_staging_with_sql dfs) (\<lambda>_. transform_data_in_analytics tb)"
  shows "w_db (snd (in_transaction body w)) =
           (case transform_all tb (staged dfs (w_db w)) of
              (None, d) \<Rightarrow> d | (Some err, d) \<Rightarrow> rollback_to (w_db w) d)"
    and "fst (in_transaction body w) =
           (case fst (transform_all tb (staged dfs (w_db w))) of None \<Rightarrow> Inr () | Some err \<Rightarrow> Inl err)"
proof -
  obtain w0 where w0: "load_data_to_staging_with_sql dfs (emit Begin w) = (Inr (), w0)"
    and db0: "w_db w0 = staged dfs (w_db w)"
    by (simp add: load_data_to_staging_with_sql_ok)
  obtain res w1 where r: "transform_data_in_analytics tb w0 = (res, w1)" by (cases "transform_data_in_analytics tb w0")
  obtain e d where t: "transform_all tb (staged dfs (w_db w)) = (e, d)" by (cases "transform_all tb (staged dfs (w_db w))")
  from transform_data_in_analytics_db[of tb w0] r t db0
  have w1: "w_db w1 = d" and res: "res = (case e of None \<Rightarrow> Inr () | Some err \<Rightarrow> Inl err)" by simp_all
  have b: "body (emit Begin w) = (res, w1)"
    by (simp add: body_def and_then_def w0 r)
  show "w_db (snd (in_transaction body w)) =
           (case transform_all tb (staged dfs (w_db w)) of
              (None, d) \<Rightarrow> d | (Some err, d) \<Rightarrow> rollback_to (w_db w) d)"
    using b w1 res t by (cases e) (simp_all add: in_transaction_def Let_def)
  show "fst (in_transaction body w) =
           (case fst (transform_all tb (staged dfs (w_db w))) of None \<Rightarrow> Inr () | Some err \<Rightarrow> Inl err)"
    using b w1 res t by (cases e) (simp_all add: in_transaction_def Let_def)
qed

lemma main_db: "w_db (main tb fs w) = run_db tb fs (w_db w)"
proof (cases "app_events_json fs = None \<or> customers_csv fs = None \<or> subscriptions_csv fs = None")
  case True
  from extract_data_from_files_fail[OF True, of w] obtain err w1 where
    "extract_data_from_files fs w = (Inl err, w1)" "w_db w1 = w_db w" by blast
  then have "w_db (main tb fs w) = w_db w"
    by (simp add: main_def and_then_def)
  moreover from True have "run_db tb fs (w_db w) = w_db w"
    by (auto simp: run_db_def split: option.splits)
  ultimately show ?thesis by simp
next
  case False
  then obtain es cs ss where f: "app_events_json fs = Some es" "customers_csv fs = Some cs"
    "subscriptions_csv fs = Some ss" by auto
  define dfs where "dfs = \<lparr>df_app_events = es, df_customers = cs, df_subscriptions = ss\<rparr>"
  from extract_data_from_files_ok[OF f, of w] obtain w1 where
    ex: "extract_data_from_files fs w = (Inr dfs, w1)" and w1: "w_db w1 = w_db w"
    by (simp add: dfs_def)
  show ?thesis
  proof (cases "schema_sql fs")
    case False
    then have "in_transaction (create_schema fs) w1 =
       (Inl (FileError ''schema/schema.sql''),
        emit Rollback ((emit (ReadFile ''schema/schema.sql'') (emit Begin w1))
          \<lparr>w_db := rollback_to (w_db w1) (w_db (emit (ReadFile ''schema/schema.sql'') (emit Begin w1)))\<rparr>))"
      by (intro in_transaction_fail) (simp add: create_schema_fail)
    then have "w_db (main tb fs w) = rollback_to (w_db w) (w_db w)"
      using w1 by (simp add: main_def and_then_def ex)
    moreover from False f have "run_db tb fs (w_db w) = w_db w" by (simp add: run_db_def)
    ultimately show ?thesis by (simp add: rollback_to_def)
  next
    case True
    obtain w2 where cr: "in_transaction (create_schema fs) w1 = (Inr (), w2)" and w2: "w_db w2 = w_db w1"
      using True by (simp add: in_transaction_def Let_def create_schema_ok emit_def)
    define body where "body = and_then (load_data_to_staging_with_sql dfs) (\<lambda>_. transform_data_in_analytics tb)"
    obtain res w3 where lt: "in_transaction body w2 = (res, w3)" by (cases "in_transaction body w2")
    from load_and_transform_result(1)[where tb=tb and dfs=dfs and w=w2] lt
    have w3: "w_db w3 = (case transform_all tb (staged dfs (w_db w2)) of
              (None, d) \<Rightarrow> d | (Some err, d) \<Rightarrow> rollback_to (w_db w2) d)"
      by (simp add: body_def)
    have "main tb fs w = (case res of Inr _ \<Rightarrow> w3 | Inl err \<Rightarrow> emit (LogPipelineFailed err) w3)"
      using lt by (simp add: main_def and_then_def[of "extract_data_from_files fs"]
            and_then_def[of "in_transaction (create_schema fs)"] ex cr body_def split: sum.splits)
    then have "w_db (main tb fs w) = w_db w3" by (cases res) simp_all
    with w3 w2 w1 True f show ?thesis
      by (simp add: run_db_def dfs_def split: prod.splits option.splits)
  qed
qed

lemma transform_dim_customer_ok:
  assumes "transform_dim_customer db = (None, d)"
  obtains tbl where "upsert_dim_customer (stg_customers_raw db) [] (analytics_dim_customer db) = Inr tbl"
    "d = db\<lparr>analytics_dim_customer := tbl\<rparr>"
  using assms by (auto simp: transform_dim_customer_def split: sum.splits)

lemma transform_dim_plan_ok:
  assumes "transform_dim_plan tb db = (None, d)"
  obtains tbl n where "upsert_dim_plan (ranked_subscriptions_rn_1 tb (stg_subscriptions_raw db))
             (dim_plan_key_seq db) (analytics_dim_plan db) = (None, n, tbl)"
    "d = db\<lparr>analytics_dim_plan := tbl, dim_plan_key_seq := n\<rparr>"
  using assms by (auto simp: transform_dim_plan_def split: prod.splits option.splits)

lemma transform_fact_app_usage_eq:
  "transform_fact_app_usage db = (None, db\<lparr>analytics_fact_app_usage := fact_app_usage_select db\<rparr>)"
  by (simp add: transform_fact_app_usage_def Let_def fact_app_usage_select_def)

lemma transform_fact_subscription_events_eq:
  "transform_fact_subscription_events db =
     (None, db\<lparr>analytics_fact_subscription_events := fact_subscription_events_select db\<rparr>)"
  by (simp add: transform_fact_subscription_events_def Let_def fact_subscription_events_select_def
        subscription_details_cte_def)

lemma fact_app_usage_select_cong:
  "stg_app_events_raw a = stg_app_events_raw b \<Longrightarrow> analytics_dim_date a = analytics_dim_date b \<Longrightarrow>
   fact_app_usage_select a = fact_app_usage_select b"
  by (simp add: fact_app_usage_select_def)

lemma fact_subscription_events_select_cong:
  "stg_subscriptions_raw a = stg_subscriptions_raw b \<Longrightarrow> stg_customers_raw a = stg_customers_raw b \<Longrightarrow>
   analytics_dim_plan a = analytics_dim_plan b \<Longrightarrow> analytics_dim_date a = analytics_dim_date b \<Longrightarrow>
   fact_subscription_events_select a = fact_subscription_events_select b"
  by (simp add: fact_subscription_events_select_def subscription_details_cte_def)

lemma transform_all_ok:
  assumes "transform_all tb db = (None, d)"
  shows "upsert_dim_customer (stg_customers_raw db) [] (analytics_dim_customer db) = Inr (analytics_dim_customer d)"
    and "upsert_dim_plan (ranked_subscriptions_rn_1 tb (stg_subscriptions_raw db))
             (dim_plan_key_seq db) (analytics_dim_plan db) = (None, dim_plan_key_seq d, analytics_dim_plan d)"
    and "d = db\<lparr>analytics_dim_customer := analytics_dim_customer d,
                analytics_dim_plan := analytics_dim_plan d,
                analytics_fact_app_usage := fact_app_usage_select db,
                analytics_fact_subscription_events :=
                  fact_subscription_events_select (db\<lparr>analytics_dim_plan := analytics_dim_plan d\<rparr>),
                dim_plan_key_seq := dim_plan_key_seq d\<rparr>"
proof -
  obtain r1 d1 where c: "transform_dim_customer db = (r1, d1)" by (cases "transform_dim_customer db")
  with assms have r1: "r1 = None" by (cases r1) (simp_all add: transform_all_def)
  obtain r2 d2 where p: "transform_dim_plan tb d1 = (r2, d2)" by (cases "transform_dim_plan tb d1")
  with assms c r1 have r2: "r2 = None" by (cases r2) (simp_all add: transform_all_def)
  from assms c r1 p r2 have d: "d = d2\<lparr>analytics_fact_app_usage := fact_app_usage_select d2,
        analytics_fact_subscription_events :=
          fact_subscription_events_select (d2\<lparr>analytics_fact_app_usage := fact_app_usage_select d2\<rparr>)\<rparr>"
    by (simp add: transform_all_def transform_fact_app_usage_eq transform_fact_subscription_events_eq)
  from c r1 obtain X where
    c1: "upsert_dim_customer (stg_customers_raw db) [] (analytics_dim_customer db) = Inr X"
    and d1: "d1 = db\<lparr>analytics_dim_customer := X\<rparr>"
    by (auto elim: transform_dim_customer_ok)
  from p r2 obtain tbl n where
    p1: "upsert_dim_plan (ranked_subscriptions_rn_1 tb (stg_subscriptions_raw d1))
             (dim_plan_key_seq d1) (analytics_dim_plan d1) = (None, n, tbl)"
    and d2: "d2 = d1\<lparr>analytics_dim_plan := tbl, dim_plan_key_seq := n\<rparr>"
    by (auto elim: transform_dim_plan_ok)
  have a: "fact_app_usage_select d2 = fact_app_usage_select db"
    by (rule fact_app_usage_select_cong) (simp_all add: d2 d1)
  have b: "fact_subscription_events_select (d2\<lparr>analytics_fact_app_usage := fact_app_usage_select d2\<rparr>) =
           fact_subscription_events_select (db\<lparr>analytics_dim_plan := tbl\<rparr>)"
    by (rule fact_subscription_events_select_cong) (simp_all add: d2 d1)
  have d': "d = db\<lparr>analytics_dim_customer := X, analytics_dim_plan := tbl,
                analytics_fact_app_usage := fact_app_usage_select db,
                analytics_fact_subscription_events :=
                  fact_subscription_events_select (db\<lparr>analytics_dim_plan := tbl\<rparr>),
                dim_plan_key_seq := n\<rparr>"
  proof -
    have "d = d2\<lparr>analytics_fact_app_usage := fact_app_usage_select db,
        analytics_fact_subscription_events := fact_subscription_events_select (db\<lparr>analytics_dim_plan := tbl\<rparr>)\<rparr>"
      using d a b by simp
    then show ?thesis by (simp add: d2 d1)
  qed
  have f: "analytics_dim_customer d = X" "analytics_dim_plan d = tbl" "dim_plan_key_seq d = n"
    by (simp_all add: d')
  show "upsert_dim_customer (stg_customers_raw db) [] (analytics_dim_customer db) = Inr (analytics_dim_customer d)"
    using c1 f by simp
  show "upsert_dim_plan (ranked_subscriptions_rn_1 tb (stg_subscriptions_raw db))
             (dim_plan_key_seq db) (analytics_dim_plan db) = (None, dim_plan_key_seq d, analytics_dim_plan d)"
    using p1 f by (simp add: d1)
  show "d = db\<lparr>analytics_dim_customer := analytics_dim_customer d,
                analytics_dim_plan := analytics_dim_plan d,
                analytics_fact_app_usage := fact_app_usage_select db,
                analytics_fact_subscription_events :=
                  fact_subscription_events_select (db\<lparr>analytics_dim_plan := analytics_dim_plan d\<rparr>),
                dim_plan_key_seq := dim_plan_key_seq d\<rparr>"
    unfolding f by (rule d')
qed

section \<open>Running twice\<close>

lemma plan_step_columns:
  "s_amount x = s_amount y \<Longrightarrow> s_currency x = s_currency y \<Longrightarrow>
   plan_step x k seq tbl = plan_step y k seq tbl"
  by (simp add: plan_step_def plan_excluded_def plan_inserted_def)

lemma upsert_dim_plan_columns:
  "map plan_columns xs = map plan_columns ys \<Longrightarrow>
   upsert_dim_plan xs seq tbl = upsert_dim_plan ys seq tbl"
proof (induction xs arbitrary: ys seq tbl)
  case Nil then show ?case by simp
next
  case (Cons x xs)
  then obtain y ys' where ys0: "ys = y # ys'" "plan_columns x = plan_columns y"
    "map plan_columns xs = map plan_columns ys'"
    by (cases ys) auto
  then have ys: "ys = y # ys'" "partition_key x = partition_key y"
    "s_amount x = s_amount y" "s_currency x = s_currency y"
    "map plan_columns xs = map plan_columns ys'"
    by (simp_all add: plan_columns_def)
  show ?case
  proof (cases "\<exists>n q. partition_key x = (Some n, Some q)")
    case True
    then obtain n q where k: "partition_key x = (Some n, Some q)" by blast
    with ys have ky: "partition_key y = (Some n, Some q)" by simp
    show ?thesis
      unfolding ys(1) upsert_dim_plan_Cons[OF k] upsert_dim_plan_Cons[OF ky]
        plan_step_columns[OF ys(3,4)]
      by (rule Cons.IH[OF ys(5)])
  next
    case False
    with ys show ?thesis by (auto simp: partition_key_def split: option.splits)
  qed
qed

lemma ties_share_currency_alike:
  assumes "ties_share_currency ss"
  shows "map plan_columns (ranked_subscriptions_rn_1 tb1 ss) =
         map plan_columns (ranked_subscriptions_rn_1 tb2 ss)"
  unfolding ranked_subscriptions_rn_1_def
proof (rule map_concat_cong)
  fix k assume kin: "k \<in> set (remdups (map partition_key ss))"
  then have k: "k \<in> set (map partition_key ss)" by simp
  let ?g = "partition_rows k ss"
  from partition_rows_nonempty[OF k] rn_1_single
  obtain x1 where x1: "rn_1 tb1 ?g = [x1]" "x1 \<in> set (first_peers ?g)" by blast
  from partition_rows_nonempty[OF k] rn_1_single
  obtain x2 where x2: "rn_1 tb2 ?g = [x2]" "x2 \<in> set (first_peers ?g)" by blast
  from assms kin x1(2) x2(2) have c: "s_currency x1 = s_currency x2"
    by (auto simp: ties_share_currency_def list_all_iff)
  from x1(2) x2(2) have "not_after x1 x2" "not_after x2 x1" "partition_key x1 = k" "partition_key x2 = k"
    by (auto simp: first_peers_iff partition_rows_def)
  then have "s_amount x1 = s_amount x2" "partition_key x1 = partition_key x2"
    by (auto intro: not_after_antisym)
  with c x1(1) x2(1) show "map plan_columns (rn_1 tb1 ?g) = map plan_columns (rn_1 tb2 ?g)"
    by (simp add: plan_columns_def)
qed

lemma transform_all_error:
  "fst (transform_all tb db) =
     (case upsert_dim_customer (stg_customers_raw db) [] (analytics_dim_customer db) of
        Inl err \<Rightarrow> Some err
      | Inr tbl \<Rightarrow> fst (upsert_dim_plan (ranked_subscriptions_rn_1 tb (stg_subscriptions_raw db))
                           (dim_plan_key_seq db) (analytics_dim_plan db)))"
  by (simp add: transform_all_def transform_dim_customer_def transform_dim_plan_def
        transform_fact_app_usage_eq transform_fact_subscription_events_eq
        split: sum.splits prod.splits option.splits)

lemma upsert_dim_customer_error_cases:
  "(case upsert_dim_customer cs seen tbl of Inl err \<Rightarrow> Some err | Inr _ \<Rightarrow> None) =
   (case upsert_dim_customer cs seen tbl2 of Inl err \<Rightarrow> Some err | Inr _ \<Rightarrow> None)"
proof (cases "upsert_dim_customer cs seen tbl")
  case (Inl err)
  then have "upsert_dim_customer cs seen tbl2 = Inl err"
    using upsert_dim_customer_error[of cs seen tbl err tbl2] by simp
  with Inl show ?thesis by simp
next
  case (Inr t)
  show ?thesis
  proof (cases "upsert_dim_customer cs seen tbl2")
    case (Inl err)
    then have "upsert_dim_customer cs seen tbl = Inl err"
      using upsert_dim_customer_error[of cs seen tbl err tbl2] by simp
    with Inr show ?thesis by simp
  next
    case Inr2: (Inr t2)
    with Inr show ?thesis by simp
  qed
qed

lemma transform_all_error_staging:
  assumes "stg_customers_raw a = stg_customers_raw b" "stg_subscriptions_raw a = stg_subscriptions_raw b"
  shows "fst (transform_all tb1 a) = fst (transform_all tb2 b)"
proof -
  have keys: "map partition_key (ranked_subscriptions_rn_1 tb1 (stg_subscriptions_raw a)) =
              map partition_key (ranked_subscriptions_rn_1 tb2 (stg_subscriptions_raw b))"
    by (simp add: ranked_keys assms)
  have p: "fst (upsert_dim_plan (ranked_subscriptions_rn_1 tb1 (stg_subscriptions_raw a))
                  (dim_plan_key_seq a) (analytics_dim_plan a)) =
           fst (upsert_dim_plan (ranked_subscriptions_rn_1 tb2 (stg_subscriptions_raw b))
                  (dim_plan_key_seq b) (analytics_dim_plan b))"
    by (rule upsert_dim_plan_error[OF keys])
  have c: "(case upsert_dim_customer (stg_customers_raw a) [] (analytics_dim_customer a) of
              Inl err \<Rightarrow> Some err | Inr _ \<Rightarrow> None) =
           (case upsert_dim_customer (stg_customers_raw b) [] (analytics_dim_customer b) of
              Inl err \<Rightarrow> Some err | Inr _ \<Rightarrow> None)"
    unfolding assms(1) by (rule upsert_dim_customer_error_cases)
  show ?thesis
    unfolding transform_all_error using c p
    by (auto split: sum.splits)
qed

lemma transform_all_again:
  assumes ok: "transform_all tb1 db = (None, d)"
    and alike: "map plan_columns (ranked_subscriptions_rn_1 tb2 (stg_subscriptions_raw db)) =
                map plan_columns (ranked_subscriptions_rn_1 tb1 (stg_subscriptions_raw db))"
  shows "\<exists>d2. transform_all tb2 d = (None, d2) \<and> relations d2 = relations d"
proof -
  note first = transform_all_ok[OF ok]
  have stg: "stg_customers_raw d = stg_customers_raw db" "stg_subscriptions_raw d = stg_subscriptions_raw db"
    "stg_app_events_raw d = stg_app_events_raw db" "analytics_dim_date d = analytics_dim_date db"
    by (subst first(3), simp)+
  have c2: "upsert_dim_customer (stg_customers_raw d) [] (analytics_dim_customer d) = Inr (analytics_dim_customer d)"
    unfolding stg by (rule upsert_dim_customer_idem[OF first(1)])
  from upsert_dim_plan_idem[OF first(2) ranked_distinct, of "dim_plan_key_seq d"]
  obtain n where p2: "upsert_dim_plan (ranked_subscriptions_rn_1 tb2 (stg_subscriptions_raw d))
             (dim_plan_key_seq d) (analytics_dim_plan d) = (None, n, analytics_dim_plan d)"
    unfolding stg upsert_dim_plan_columns[OF alike] by blast
  have "fst (transform_all tb2 d) = None"
    unfolding transform_all_error by (simp add: c2 p2)
  then obtain d2 where again: "transform_all tb2 d = (None, d2)"
    by (cases "transform_all tb2 d") simp
  note second = transform_all_ok[OF again]
  from second(1) c2 have dc: "analytics_dim_customer d2 = analytics_dim_customer d" by simp
  from second(2) p2 have dp: "analytics_dim_plan d2 = analytics_dim_plan d" by simp
  have fa: "fact_app_usage_select d = analytics_fact_app_usage d"
  proof -
    have "fact_app_usage_select d = fact_app_usage_select db"
      by (rule fact_app_usage_select_cong) (simp_all add: stg)
    also have "\<dots> = analytics_fact_app_usage d" by (subst first(3)) simp
    finally show ?thesis .
  qed
  have fs: "fact_subscription_events_select (d\<lparr>analytics_dim_plan := analytics_dim_plan d2\<rparr>) =
            analytics_fact_subscription_events d"
  proof -
    have "fact_subscription_events_select (d\<lparr>analytics_dim_plan := analytics_dim_plan d2\<rparr>) =
          fact_subscription_events_select (db\<lparr>analytics_dim_plan := analytics_dim_plan d\<rparr>)"
      by (rule fact_subscription_events_select_cong) (simp_all add: stg dp)
    also have "\<dots> = analytics_fact_subscription_events d" by (subst (2) first(3)) simp
    finally show ?thesis .
  qed
  from fs dp have fs': "fact_subscription_events_select d = analytics_fact_subscription_events d"
    by simp
  have "relations d2 = relations d"
    by (subst second(3)) (simp add: relations_def dc dp fa fs')
  with again show ?thesis by blast
qed

lemma relations_rollback_to [simp]: "relations (rollback_to saved cur) = relations saved"
  by (simp add: relations_def rollback_to_def)

lemma staged_again:
  assumes "transform_all tb (staged dfs db) = (None, d)"
  shows "staged dfs d = d"
proof -
  have "stg_customers_raw d = df_customers dfs" "stg_subscriptions_raw d = df_subscriptions dfs"
    "stg_app_events_raw d = df_app_events dfs"
    by (subst transform_all_ok(3)[OF assms], simp add: staged_def)+
  then show ?thesis by (simp add: staged_def)
qed

lemma run_db_idempotent:
  assumes "ties_resolved_alike tb1 tb2 fs"
  shows "relations (run_db tb2 fs (run_db tb1 fs db)) = relations (run_db tb1 fs db)"
proof (cases "app_events_json fs = None \<or> customers_csv fs = None \<or> subscriptions_csv fs = None \<or> \<not> schema_sql fs")
  case True
  then have "run_db tb fs x = x" for tb x
    by (auto simp: run_db_def split: option.splits)
  then show ?thesis by simp
next
  case False
  then obtain es cs ss where f: "app_events_json fs = Some es" "customers_csv fs = Some cs"
    "subscriptions_csv fs = Some ss" "schema_sql fs" by auto
  define dfs where "dfs = \<lparr>df_app_events = es, df_customers = cs, df_subscriptions = ss\<rparr>"
  have run: "run_db tb fs x = (case transform_all tb (staged dfs x) of (None, d) \<Rightarrow> d
                                | (Some err, d) \<Rightarrow> rollback_to x d)" for tb x
    using f by (simp add: run_db_def dfs_def)
  from assms f have alike: "map plan_columns (ranked_subscriptions_rn_1 tb2 ss) =
                            map plan_columns (ranked_subscriptions_rn_1 tb1 ss)"
    by (simp add: ties_resolved_alike_def)
  obtain r d where t1: "transform_all tb1 (staged dfs db) = (r, d)" by (cases "transform_all tb1 (staged dfs db)")
  show ?thesis
  proof (cases r)
    case None
    with t1 have r1: "run_db tb1 fs db = d" by (simp add: run)
    from t1 None have ok: "transform_all tb1 (staged dfs db) = (None, d)" by simp
    have "stg_subscriptions_raw (staged dfs db) = ss" by (simp add: staged_def dfs_def)
    with alike transform_all_again[OF ok, of tb2] obtain d2 where
      "transform_all tb2 d = (None, d2)" "relations d2 = relations d" by auto
    with staged_again[OF ok] have "run_db tb2 fs d = d2" by (simp add: run)
    with r1 \<open>relations d2 = relations d\<close> show ?thesis by simp
  next
    case (Some err)
    with t1 have r1: "run_db tb1 fs db = rollback_to db d" by (simp add: run)
    have "fst (transform_all tb2 (staged dfs (rollback_to db d))) = fst (transform_all tb1 (staged dfs db))"
      by (rule transform_all_error_staging) (simp_all add: staged_def)
    with t1 Some obtain d' where "transform_all tb2 (staged dfs (rollback_to db d)) = (Some err, d')"
      by (cases "transform_all tb2 (staged dfs (rollback_to db d))") simp
    then have "run_db tb2 fs (rollback_to db d) = rollback_to (rollback_to db d) d'" by (simp add: run)
    with r1 show ?thesis by simp
  qed
qed

lemma ties_resolved_alike_same: "ties_resolved_alike tb tb fs"
  by (simp add: ties_resolved_alike_def split: option.splits)

lemma ties_resolved_alike_share_currency:
  "subscriptions_csv fs = Some ss \<Longrightarrow> ties_share_currency ss \<Longrightarrow> ties_resolved_alike tb1 tb2 fs"
  by (simp add: ties_resolved_alike_def ties_share_currency_alike)

section \<open>The trace of a run\<close>

lemma distinct_filter_le_1:
  "distinct (map f xs) \<Longrightarrow> length (filter (\<lambda>x. f x = k) xs) \<le> 1"
  by (simp add: filter_distinct_one split: option.splits)

lemma dim_plan_base_amount_general:
  assumes "transform_dim_plan tb db = (None, d)"
    and "distinct (map plan_id (analytics_dim_plan db))"
    and "s \<in> set (stg_subscriptions_raw db)"
    and "partition_key s = (Some n, Some q)"
  shows "\<exists>r. filter (\<lambda>r. plan_id r = (n, q)) (analytics_dim_plan d) = [r] \<and>
             p_base_amount r =
               (if None \<in> set (map s_amount (partition_rows (Some n, Some q) (stg_subscriptions_raw db)))
                then None
                else Some (maximum_amount (partition_rows (Some n, Some q) (stg_subscriptions_raw db))))"
proof -
  let ?ss = "stg_subscriptions_raw db"
  let ?g = "partition_rows (Some n, Some q) ?ss"
  from assms(1) obtain tbl m where
    up: "upsert_dim_plan (ranked_subscriptions_rn_1 tb ?ss) (dim_plan_key_seq db) (analytics_dim_plan db) = (None, m, tbl)"
    and d: "d = db\<lparr>analytics_dim_plan := tbl, dim_plan_key_seq := m\<rparr>"
    by (rule transform_dim_plan_ok)
  from ranked_covers[OF assms(3), of tb] assms(4) obtain x where
    x: "x \<in> set (ranked_subscriptions_rn_1 tb ?ss)" "partition_key x = (Some n, Some q)" by auto
  from upsert_dim_plan_hit[OF up ranked_distinct x distinct_filter_le_1[OF assms(2)]]
  obtain r where r: "filter (\<lambda>r. plan_id r = (n, q)) tbl = [r]" "p_base_amount r = s_amount x" by blast
  from ranked_first[OF x(1)] x(2) have "x \<in> set ?g" "\<forall>y\<in>set ?g. not_after x y"
    by (auto simp: partition_rows_def)
  from first_amount[OF this] r(2)
  have "p_base_amount r = (if None \<in> set (map s_amount ?g) then None else Some (maximum_amount ?g))"
    by (simp add: maximum_amount_def)
  with r(1) d show ?thesis by simp
qed

lemma appendsI: "(\<And>w. \<exists>rest. w_trace (snd (a w)) = w_trace w @ rest) \<Longrightarrow> appends a"
  by (simp add: appends_def)

lemma appendsD: "appends a \<Longrightarrow> \<exists>rest. w_trace (snd (a w)) = w_trace w @ rest"
  by (simp add: appends_def)

lemma appends_return: "appends (\<lambda>w. (Inr x, w))"
  by (simp add: appends_def)

lemma appends_read_file: "appends (read_file path x)"
  by (cases x) (simp_all add: appends_def read_file_def)

lemma appends_execute: "appends (execute ev stmt)"
  by (simp add: appends_def execute_def Let_def split: prod.splits option.splits)

lemma appends_and_then:
  assumes "appends m" and "\<And>x. appends (f x)"
  shows "appends (and_then m f)"
proof (rule appendsI)
  fix w
  obtain r w1 where m: "m w = (r, w1)" by (cases "m w")
  from appendsD[OF assms(1), of w] m obtain r1 where r1: "w_trace w1 = w_trace w @ r1" by auto
  show "\<exists>rest. w_trace (snd (and_then m f w)) = w_trace w @ rest"
  proof (cases r)
    case (Inl err)
    with m r1 show ?thesis by (simp add: and_then_def)
  next
    case (Inr x)
    from appendsD[OF assms(2), of x w1] obtain r2 where "w_trace (snd (f x w1)) = w_trace w1 @ r2" by blast
    with Inr m r1 show ?thesis by (simp add: and_then_def)
  qed
qed

lemma appends_in_transaction:
  assumes "appends body"
  shows "appends (in_transaction body)"
proof (rule appendsI)
  fix w
  obtain r w1 where b: "body (emit Begin w) = (r, w1)" by (cases "body (emit Begin w)")
  from appendsD[OF assms, of "emit Begin w"] b obtain r1 where "w_trace w1 = w_trace w @ Begin # r1"
    by auto
  with b show "\<exists>rest. w_trace (snd (in_transaction body w)) = w_trace w @ rest"
    by (cases r) (simp_all add: in_transaction_def Let_def)
qed

lemma appends_run_queries: "appends (run_queries tb qs)"
  by (induction qs) (simp_all add: appends_return appends_and_then appends_execute)

lemma appends_after_extract:
  "appends (\<lambda>w. and_then (in_transaction (create_schema fs)) (\<lambda>_.
               in_transaction
                 (and_then (load_data_to_staging_with_sql all_data) (\<lambda>_.
                    transform_data_in_analytics tb))) w)"
  unfolding create_schema_def load_data_to_staging_with_sql_def transform_data_in_analytics_def
  by (intro appends_and_then appends_in_transaction appends_read_file appends_execute appends_run_queries)

lemma and_then_assoc: "and_then (and_then m f) g = and_then m (\<lambda>x. and_then (f x) g)"
  by (auto simp: and_then_def fun_eq_iff split: prod.splits sum.splits)

lemma read_first:
  assumes "\<And>y. appends (f y)"
  shows "\<exists>rest. w_trace (snd (and_then (read_file path x) f w)) = w_trace w @ ReadFile path # rest"
proof (cases x)
  case None
  then show ?thesis by (simp add: and_then_def read_file_def)
next
  case (Some y)
  from appendsD[OF assms, of y "emit (ReadFile path) w"] Some show ?thesis
    by (auto simp: and_then_def read_file_def)
qed

lemma main_reads_first:
  "\<exists>rest. w_trace (main tb fs w) = w_trace w @ ReadFile ''./sample_data/app_events.json'' # rest"
proof -
  let ?K = "\<lambda>all_data. and_then (in_transaction (create_schema fs)) (\<lambda>_.
               in_transaction
                 (and_then (load_data_to_staging_with_sql all_data) (\<lambda>_.
                    transform_data_in_analytics tb)))"
  let ?P = "and_then (extract_data_from_files fs) ?K"
  have K: "appends (?K all_data)" for all_data
    using appends_after_extract[of fs all_data tb] by simp
  have "\<exists>rest. w_trace (snd (?P w)) = w_trace w @ ReadFile ''./sample_data/app_events.json'' # rest"
    unfolding extract_data_from_files_def and_then_assoc
    by (intro read_first appends_and_then appends_read_file appends_return K)
  then obtain rest where r: "w_trace (snd (?P w)) = w_trace w @ ReadFile ''./sample_data/app_events.json'' # rest"
    by blast
  obtain res w1 where p: "?P w = (res, w1)" by (cases "?P w")
  with r show ?thesis by (cases res) (simp_all add: main_def)
qed

section \<open>Unfolding rules for evaluation\<close>

lemmas ex_defs = ex_sub_def ex_pro_10_def ex_pro_20_def ex_team_120_def ex_pro_20_eur_def ex_pro_null_def
  ex_cust_def ex_event_def ex_dim_date_def ex_empty_db_def ex_staged_db_def ex_plans_def ex_db_def
  ex_row_s1_def ex_row_s2_def ex_row_s3_def ex_files_def ex_tie_files_def ex_dup_files_def ex_world_def

lemmas sql_defs = sql_eq_def sql_or_def sql_and_def is_not_null_def sql_div_def sql_true_def
  date_trunc_month_def json_get_text_def

lemmas stmt_defs = transform_dim_customer_def customer_step_def customer_excluded_def customer_inserted_def
  transform_dim_plan_def ranked_subscriptions_rn_1_def rn_1_def first_peers_def not_after_def
  partition_rows_def partition_key_def plan_step_def plan_id_def plan_excluded_def plan_inserted_def
  transform_fact_app_usage_eq fact_app_usage_select_def app_usage_on_def app_usage_row_def
  transform_fact_subscription_events_eq fact_subscription_events_select_def
  subscription_details_cte_def customer_on_def plan_on_def date_on_def details_row_def
  subscription_event_row_def mrr_amount_def first_peer_def last_peer_def

lemmas action_defs = main_def and_then_def extract_data_from_files_def read_file_def emit_def
  in_transaction_def create_schema_def execute_def load_data_to_staging_with_sql_def
  transform_data_in_analytics_def transform_order_def rollback_to_def

section \<open>The trace of a successful run\<close>

lemma transform_data_in_analytics_ok:
  "transform_all tb (w_db w) = (None, d) \<Longrightarrow>
   transform_data_in_analytics tb w =
     (Inr (), \<lparr>w_db = d,
               w_trace = w_trace w @ [ExecuteTransform ''dim_customer'', ExecuteTransform ''dim_plan'',
                  ExecuteTransform ''fact_app_usage'', ExecuteTransform ''fact_subscription_events'']\<rparr>)"
  by (simp add: transform_data_in_analytics_def transform_order_def and_then_def execute_def Let_def
        transform_all_def emit_def split: prod.splits option.splits)

lemma main_trace_ok:
  assumes f: "app_events_json fs = Some es" "customers_csv fs = Some cs" "subscriptions_csv fs = Some ss"
    "schema_sql fs"
    and t: "transform_all tb (staged \<lparr>df_app_events = es, df_customers = cs, df_subscriptions = ss\<rparr> (w_db w)) = (None, d)"
  shows "w_trace (main tb fs w) = w_trace w @
     [ReadFile ''./sample_data/app_events.json'', ReadFile ''./sample_data/customers.csv'',
      ReadFile ''./sample_data/subscriptions.csv'',
      Begin, ReadFile ''schema/schema.sql'', ExecuteSchema, Commit,
      Begin, Truncate ''app_events_raw'', ToSql ''app_events_raw'',
      Truncate ''customers_raw'', ToSql ''customers_raw'',
      Truncate ''subscriptions_raw'', ToSql ''subscriptions_raw'',
      ExecuteTransform ''dim_customer'', ExecuteTransform ''dim_plan'',
      ExecuteTransform ''fact_app_usage'', ExecuteTransform ''fact_subscription_events'', Commit]"
proof -
  define dfs where "dfs = \<lparr>df_app_events = es, df_customers = cs, df_subscriptions = ss\<rparr>"
  define w1 where "w1 = w\<lparr>w_trace := w_trace w @ [ReadFile ''./sample_data/app_events.json'',
      ReadFile ''./sample_data/customers.csv'', ReadFile ''./sample_data/subscriptions.csv'']\<rparr>"
  define w2 where "w2 = w1\<lparr>w_trace := w_trace w1 @ [Begin, ReadFile ''schema/schema.sql'', ExecuteSchema, Commit]\<rparr>"
  define w3 where "w3 = \<lparr>w_db = staged dfs (w_db w2),
      w_trace = w_trace w2 @ [Begin, Truncate ''app_events_raw'', ToSql ''app_events_raw'',
                                      Truncate ''customers_raw'', ToSql ''customers_raw'',
                                      Truncate ''subscriptions_raw'', ToSql ''subscriptions_raw'']\<rparr>"
  define w4 where "w4 = \<lparr>w_db = d, w_trace = w_trace w3 @ [ExecuteTransform ''dim_customer'', ExecuteTransform ''dim_plan'',
                  ExecuteTransform ''fact_app_usage'', ExecuteTransform ''fact_subscription_events'']\<rparr>"
  have ex: "extract_data_from_files fs w = (Inr dfs, w1)"
    unfolding dfs_def w1_def by (rule extract_data_from_files_ok[OF f(1,2,3)])
  have cr: "in_transaction (create_schema fs) w1 = (Inr (), w2)"
    by (simp add: in_transaction_def Let_def create_schema_ok[OF f(4)] emit_def w2_def)
  have ld: "load_data_to_staging_with_sql dfs (emit Begin w2) = (Inr (), w3)"
    by (simp add: load_data_to_staging_with_sql_ok w3_def)
  have "w_db w3 = staged dfs (w_db w)" by (simp add: w3_def w2_def w1_def)
  with t have "transform_all tb (w_db w3) = (None, d)" by (simp add: dfs_def)
  from transform_data_in_analytics_ok[OF this]
  have tr: "transform_data_in_analytics tb w3 = (Inr (), w4)" by (simp add: w4_def)
  have lt: "in_transaction (and_then (load_data_to_staging_with_sql dfs) (\<lambda>_. transform_data_in_analytics tb)) w2 =
        (Inr (), emit Commit w4)"
    by (rule in_transaction_ok) (simp add: and_then_def ld tr)
  have "main tb fs w = emit Commit w4"
    by (simp add: main_def and_then_def[of "extract_data_from_files fs"]
          and_then_def[of "in_transaction (create_schema fs)"] ex cr lt)
  then show ?thesis by (simp add: w4_def w3_def w2_def w1_def)
qed

lemma ex_transform_ok:
  "fst (transform_all first_peer (staged \<lparr>df_app_events = stg_app_events_raw ex_staged_db,
      df_customers = stg_customers_raw ex_staged_db, df_subscriptions = stg_subscriptions_raw ex_staged_db\<rparr> ex_empty_db)) = None"
  by (simp add: transform_all_error staged_def stmt_defs ex_defs Let_def)

section \<open>The examples, evaluated\<close>

lemma ex_facts:
  "transform_fact_subscription_events ex_db =
     (None, ex_db\<lparr>analytics_fact_subscription_events := [ex_row_s1, ex_row_s2, ex_row_s3]\<rparr>)"
  by (simp add: transform_fact_subscription_events_eq fact_subscription_events_select_def
        subscription_details_cte_def customer_on_def plan_on_def date_on_def details_row_def
        subscription_event_row_def mrr_amount_def sql_defs ex_defs)

lemma ex_dup_trace:
  "w_trace (main first_peer ex_dup_files ex_world) =
     [ReadFile ''./sample_data/app_events.json'', ReadFile ''./sample_data/customers.csv'',
      ReadFile ''./sample_data/subscriptions.csv'',
      Begin, ReadFile ''schema/schema.sql'', ExecuteSchema, Commit,
      Begin, Truncate ''app_events_raw'', ToSql ''app_events_raw'',
      Truncate ''customers_raw'', ToSql ''customers_raw'',
      Truncate ''subscriptions_raw'', ToSql ''subscriptions_raw'',
      ExecuteTransform ''dim_customer'', Rollback,
      LogPipelineFailed (CardinalityViolation ''dim_customer'')]"
  by (simp add: action_defs stmt_defs sql_defs ex_defs Let_def)

lemma ex_tie_first:
  "transform_dim_plan first_peer ex_tie_db =
     (None, ex_tie_db\<lparr>analytics_dim_plan := [\<lparr>p_plan_key = 1, p_plan_name = ''Pro'', p_period = ''monthly'',
                  p_base_amount = Some 20, p_currency = Some ''USD''\<rparr>], dim_plan_key_seq := 2\<rparr>)"
  by (simp add: stmt_defs ex_defs ex_tie_db_def Let_def)

lemma ex_tie_last:
  "transform_dim_plan last_peer ex_tie_db =
     (None, ex_tie_db\<lparr>analytics_dim_plan := [\<lparr>p_plan_key = 1, p_plan_name = ''Pro'', p_period = ''monthly'',
                  p_base_amount = Some 20, p_currency = Some ''EUR''\<rparr>], dim_plan_key_seq := 2\<rparr>)"
  by (simp add: stmt_defs ex_defs ex_tie_db_def Let_def)

lemma ex_null_plan:
  "transform_dim_plan tb ex_null_db =
     (None, ex_null_db\<lparr>analytics_dim_plan := [\<lparr>p_plan_key = 1, p_plan_name = ''Pro'', p_period = ''monthly'',
                  p_base_amount = None, p_currency = Some ''USD''\<rparr>], dim_plan_key_seq := 2\<rparr>)"
  by (simp add: stmt_defs ex_defs ex_null_db_def Let_def)

lemma ex_plan_run:
  "transform_dim_plan first_peer ex_staged_db = (None, ex_db)"
  by (simp add: stmt_defs ex_defs Let_def)

lemma ex_usage:
  "transform_fact_app_usage ex_db = (None, ex_db\<lparr>analytics_fact_app_usage := [ex_usage_row]\<rparr>)"
  by (simp add: stmt_defs sql_defs ex_defs ex_usage_row_def)

section \<open>The claims\<close>

subsection \<open>C1: running the pipeline twice\<close>

text \<open>
  Claim C1, as amended. Running the full pipeline a second time on the same input files
  leaves every staging and analytics relation as the first run left it, provided the two
  runs resolve the ties among the maximum-amount rows of each (plan\_name, period) group
  alike, that is, the rows they number 1 carry the same plan name, period, amount and
  currency. The first run may be made by any executor \<open>tb1\<close> and the second by any
  executor \<open>tb2\<close>; the starting database is arbitrary, and a run that fails is covered
  too (both runs then fail and roll back). The proviso holds when both runs are made by
  the same executor (\<open>ties_resolved_alike_same\<close>) and, whatever the executors, when
  the rows that tie share their currency (\<open>ties_resolved_alike_share_currency\<close>).
\<close>

theorem pipeline_idempotent:
  assumes "ties_resolved_alike tb1 tb2 fs"
  shows "relations (w_db (main tb2 fs (main tb1 fs w))) = relations (w_db (main tb1 fs w))"
  unfolding main_db by (rule run_db_idempotent[OF assms])

text \<open>The example files have no tie, so any two executors resolve their ties alike.\<close>

theorem pipeline_idempotent_witness:
  "ties_resolved_alike first_peer last_peer ex_files \<and>
   relations (w_db (main last_peer ex_files (main first_peer ex_files ex_world))) =
   relations (w_db (main first_peer ex_files ex_world))"
proof -
  have a: "ties_resolved_alike first_peer last_peer ex_files"
    by (simp add: ties_resolved_alike_def plan_columns_def stmt_defs ex_defs Let_def)
  from pipeline_idempotent[OF a, of ex_world] a show ?thesis by simp
qed

text \<open>
  Without the proviso the claim fails. In \<open>ex_tie_files\<close> two Pro/monthly rows tie at
  amount 20, one in USD and one in EUR. A first run that numbers the USD row 1 and a
  second run that numbers the EUR row 1 leave different \<open>dim_plan\<close> rows.
\<close>

theorem pipeline_idempotent_counterexample:
  "relations (w_db (main last_peer ex_tie_files (main first_peer ex_tie_files ex_world))) \<noteq>
   relations (w_db (main first_peer ex_tie_files ex_world))"
  unfolding main_db
  by (simp add: run_db_def transform_all_def staged_def stmt_defs sql_defs ex_defs Let_def relations_def)

subsection \<open>C2: the new-revenue flag and the calendar month\<close>

text \<open>
  Claim C2. Every row that the statement inserts into \<open>fact_subscription_events\<close> comes
  from a staging subscription \<open>s\<close> and the date-dimension entry \<open>d\<close> it was joined to;
  its \<open>is_new_mrr_flag\<close> is true exactly when the start date of \<open>s\<close> falls in the same
  calendar month as the date of \<open>d\<close>, and false exactly when it does not.
\<close>

theorem is_new_mrr_flag_same_month:
  assumes "transform_fact_subscription_events db = (res, db')"
    and "r \<in> set (analytics_fact_subscription_events db')"
  shows "\<exists>s c p d x. s \<in> set (stg_subscriptions_raw db) \<and> c \<in> set (stg_customers_raw db) \<and>
           p \<in> set (analytics_dim_plan db) \<and> d \<in> set (analytics_dim_date db) \<and>
           r = subscription_event_row (details_row s c p) d \<and> s_start_date s = Some x \<and>
           (fs_is_new_mrr_flag r = Some True \<longleftrightarrow> same_calendar_month x (d_full_date d)) \<and>
           (fs_is_new_mrr_flag r = Some False \<longleftrightarrow> \<not> same_calendar_month x (d_full_date d))"
proof -
  from inserted_row[OF assms] obtain s c p d where *: "s \<in> set (stg_subscriptions_raw db)"
    "c \<in> set (stg_customers_raw db)" "p \<in> set (analytics_dim_plan db)"
    "d \<in> set (analytics_dim_date db)" "s_start_date s = Some (d_full_date d)"
    "r = subscription_event_row (details_row s c p) d"
    by blast
  from is_new_mrr_flag_row[OF *(5), of c p d] *(6)
  have "fs_is_new_mrr_flag r = Some (same_calendar_month (d_full_date d) (d_full_date d))" by simp
  then have "(fs_is_new_mrr_flag r = Some True \<longleftrightarrow> same_calendar_month (d_full_date d) (d_full_date d)) \<and>
           (fs_is_new_mrr_flag r = Some False \<longleftrightarrow> \<not> same_calendar_month (d_full_date d) (d_full_date d))"
    by simp
  with * show ?thesis by blast
qed

theorem is_new_mrr_flag_same_month_witness:
  "transform_fact_subscription_events ex_db =
     (None, ex_db\<lparr>analytics_fact_subscription_events := [ex_row_s1, ex_row_s2, ex_row_s3]\<rparr>) \<and>
   ex_row_s2 \<in> set [ex_row_s1, ex_row_s2, ex_row_s3] \<and>
   (\<exists>s c p d x. s \<in> set (stg_subscriptions_raw ex_db) \<and> d \<in> set (analytics_dim_date ex_db) \<and>
      ex_row_s2 = subscription_event_row (details_row s c p) d \<and> s_start_date s = Some x \<and>
      (fs_is_new_mrr_flag ex_row_s2 = Some True \<longleftrightarrow> same_calendar_month x (d_full_date d)))"
proof -
  have m: "ex_row_s2 \<in> set (analytics_fact_subscription_events
             (ex_db\<lparr>analytics_fact_subscription_events := [ex_row_s1, ex_row_s2, ex_row_s3]\<rparr>))"
    by simp
  from is_new_mrr_flag_same_month[OF ex_facts m]
  have "\<exists>s c p d x. s \<in> set (stg_subscriptions_raw ex_db) \<and> d \<in> set (analytics_dim_date ex_db) \<and>
      ex_row_s2 = subscription_event_row (details_row s c p) d \<and> s_start_date s = Some x \<and>
      (fs_is_new_mrr_flag ex_row_s2 = Some True \<longleftrightarrow> same_calendar_month x (d_full_date d))"
    by blast
  with ex_facts show ?thesis by simp
qed

subsection \<open>C3: the new-revenue flag is constant\<close>

text \<open>
  Claim C3. Every row that the statement inserts into \<open>fact_subscription_events\<close> has
  \<open>is_new_mrr_flag\<close> true: the join to the date dimension equates the start date with
  the date it is then compared to, month against month.
\<close>

theorem is_new_mrr_flag_always_true:
  assumes "transform_fact_subscription_events db = (res, db')"
    and "r \<in> set (analytics_fact_subscription_events db')"
  shows "fs_is_new_mrr_flag r = Some True"
proof -
  from inserted_row[OF assms] obtain s c p d where "s_start_date s = Some (d_full_date d)"
    and "r = subscription_event_row (details_row s c p) d"
    by blast
  then show ?thesis
    by (simp add: is_new_mrr_flag_row same_calendar_month_def)
qed

theorem is_new_mrr_flag_always_true_witness:
  "transform_fact_subscription_events ex_db =
     (None, ex_db\<lparr>analytics_fact_subscription_events := [ex_row_s1, ex_row_s2, ex_row_s3]\<rparr>) \<and>
   ex_row_s1 \<in> set [ex_row_s1, ex_row_s2, ex_row_s3] \<and>
   fs_is_new_mrr_flag ex_row_s1 = Some True"
proof -
  have m: "ex_row_s1 \<in> set (analytics_fact_subscription_events
             (ex_db\<lparr>analytics_fact_subscription_events := [ex_row_s1, ex_row_s2, ex_row_s3]\<rparr>))"
    by simp
  from is_new_mrr_flag_always_true[OF ex_facts m] ex_facts show ?thesis by simp
qed

subsection \<open>C4: the base amount of a plan\<close>

text \<open>
  Claim C4, as amended. When the plan-dimension statement succeeds on a \<open>dim_plan\<close> whose
  (plan\_name, period) key is unique, every group of staging rows with the key \<open>(n, q)\<close>
  in which no row lacks an amount leaves exactly one \<open>dim_plan\<close> row for that key, and
  the \<open>base_amount\<close> of that row is the maximum amount of the group.
\<close>

theorem dim_plan_base_amount:
  assumes "transform_dim_plan tb db = (None, d)"
    and "distinct (map plan_id (analytics_dim_plan db))"
    and "s \<in> set (stg_subscriptions_raw db)"
    and "partition_key s = (Some n, Some q)"
    and "None \<notin> set (map s_amount (partition_rows (Some n, Some q) (stg_subscriptions_raw db)))"
  shows "\<exists>r. filter (\<lambda>r. plan_id r = (n, q)) (analytics_dim_plan d) = [r] \<and>
             p_base_amount r =
               Some (maximum_amount (partition_rows (Some n, Some q) (stg_subscriptions_raw db)))"
  using dim_plan_base_amount_general[OF assms(1,2,3,4)] assms(5) by simp

text \<open>Amounts 10 and 20 for Pro/monthly give the base amount 20.\<close>

theorem dim_plan_base_amount_witness:
  "transform_dim_plan first_peer ex_staged_db = (None, ex_db) \<and>
   distinct (map plan_id (analytics_dim_plan ex_staged_db)) \<and>
   ex_pro_10 \<in> set (stg_subscriptions_raw ex_staged_db) \<and>
   partition_key ex_pro_10 = (Some ''Pro'', Some ''monthly'') \<and>
   map s_amount (partition_rows (Some ''Pro'', Some ''monthly'') (stg_subscriptions_raw ex_staged_db)) =
     [Some 10, Some 20] \<and>
   (\<exists>r. filter (\<lambda>r. plan_id r = (''Pro'', ''monthly'')) (analytics_dim_plan ex_db) = [r] \<and>
        p_base_amount r = Some 20)"
proof -
  have h2: "distinct (map plan_id (analytics_dim_plan ex_staged_db))" by (simp add: ex_defs)
  have h3: "ex_pro_10 \<in> set (stg_subscriptions_raw ex_staged_db)" by (simp add: ex_defs)
  have h4: "partition_key ex_pro_10 = (Some ''Pro'', Some ''monthly'')" by (simp add: partition_key_def ex_defs)
  have g: "partition_rows (Some ''Pro'', Some ''monthly'') (stg_subscriptions_raw ex_staged_db) = [ex_pro_10, ex_pro_20]"
    by (simp add: partition_rows_def partition_key_def ex_defs)
  have m: "maximum_amount [ex_pro_10, ex_pro_20] = 20" "None \<notin> set (map s_amount [ex_pro_10, ex_pro_20])"
    by (simp_all add: maximum_amount_def ex_defs)
  have h5: "None \<notin> set (map s_amount (partition_rows (Some ''Pro'', Some ''monthly'')
                 (stg_subscriptions_raw ex_staged_db)))"
    using g m(2) by simp
  from dim_plan_base_amount[OF ex_plan_run h2 h3 h4 h5] g m
  have "\<exists>r. filter (\<lambda>r. plan_id r = (''Pro'', ''monthly'')) (analytics_dim_plan ex_db) = [r] \<and>
        p_base_amount r = Some 20" by simp
  moreover have "map s_amount (partition_rows (Some ''Pro'', Some ''monthly'') (stg_subscriptions_raw ex_staged_db)) =
     [Some 10, Some 20]"
    unfolding g by (simp add: ex_defs)
  ultimately show ?thesis using ex_plan_run h2 h3 h4 by blast
qed

text \<open>
  The claim as it was stated fails on a group with a missing amount. With the Pro/monthly
  rows of \<open>ex_null_db\<close>, one without an amount and one with amount 10, the descending
  sort ranks the row without an amount first: the \<open>dim_plan\<close> row gets the base amount
  NULL, while the maximum amount of the group is 10.
\<close>

theorem dim_plan_base_amount_counterexample:
  "map p_base_amount (analytics_dim_plan (snd (transform_dim_plan first_peer ex_null_db))) = [None] \<and>
   maximum_amount (partition_rows (Some ''Pro'', Some ''monthly'') (stg_subscriptions_raw ex_null_db)) = 10"
proof -
  have a: "map p_base_amount (analytics_dim_plan (snd (transform_dim_plan first_peer ex_null_db))) = [None]"
    by (simp add: ex_null_plan)
  have b: "maximum_amount (partition_rows (Some ''Pro'', Some ''monthly'') (stg_subscriptions_raw ex_null_db)) = 10"
    by (simp add: maximum_amount_def partition_rows_def partition_key_def ex_null_db_def ex_defs)
  from a b show ?thesis by (rule conjI)
qed

subsection \<open>C5: ties on the maximum amount\<close>

text \<open>
  Claim C5, as amended. The query ranks the rows of a group by amount alone, so it does
  not determine which of the rows that tie on the maximum is numbered 1. Whichever the
  executor picks, the statement fails or succeeds alike, and the \<open>dim_plan\<close> rows it
  leaves agree in \<open>plan_key\<close>, \<open>plan_name\<close>, \<open>period\<close> and \<open>base_amount\<close>: only
  \<open>currency\<close> depends on the pick.
\<close>

theorem dim_plan_tie_break_changes_currency_only:
  "fst (transform_dim_plan tb1 db) = fst (transform_dim_plan tb2 db) \<and>
   map without_currency (analytics_dim_plan (snd (transform_dim_plan tb1 db))) =
   map without_currency (analytics_dim_plan (snd (transform_dim_plan tb2 db)))"
proof -
  let ?u1 = "upsert_dim_plan (ranked_subscriptions_rn_1 tb1 (stg_subscriptions_raw db))
               (dim_plan_key_seq db) (analytics_dim_plan db)"
  let ?u2 = "upsert_dim_plan (ranked_subscriptions_rn_1 tb2 (stg_subscriptions_raw db))
               (dim_plan_key_seq db) (analytics_dim_plan db)"
  have eq: "fst ?u1 = fst ?u2 \<and> fst (snd ?u1) = fst (snd ?u2) \<and>
        map without_currency (snd (snd ?u1)) = map without_currency (snd (snd ?u2))"
    by (rule upsert_dim_plan_without_currency[OF ranked_amounts_tb refl])
  obtain e1 n1 t1 where u1: "?u1 = (e1, n1, t1)" by (cases ?u1)
  obtain e2 n2 t2 where u2: "?u2 = (e2, n2, t2)" by (cases ?u2)
  from eq u1 u2 have e: "e2 = e1" and m: "map without_currency t1 = map without_currency t2"
    by simp_all
  show ?thesis
    unfolding transform_dim_plan_def u1 u2 e using m by (cases e1) simp_all
qed

text \<open>
  The claim as it was stated fails: over the same staging contents (two Pro/monthly rows
  that tie at 20, in USD and in EUR) one admissible numbering leaves the USD row in
  \<open>dim_plan\<close> and another the EUR row.
\<close>

theorem dim_plan_tie_counterexample:
  "map p_currency (analytics_dim_plan (snd (transform_dim_plan first_peer ex_tie_db))) = [Some ''USD''] \<and>
   map p_currency (analytics_dim_plan (snd (transform_dim_plan last_peer ex_tie_db))) = [Some ''EUR'']"
  by (simp add: ex_tie_first ex_tie_last)

subsection \<open>C6: the order of the phases\<close>

text \<open>
  Claim C6 says that the schema bootstrap runs first and that no source file is read
  before it. \<open>main\<close> calls \<open>extract_data_from_files\<close> before it opens the connection:
  in the run over the example files the three source files are read first, then the
  bootstrap transaction runs, then the transaction of the load and the transform.
\<close>

theorem ex_run_trace:
  "w_trace (main first_peer ex_files ex_world) =
     [ReadFile ''./sample_data/app_events.json'', ReadFile ''./sample_data/customers.csv'',
      ReadFile ''./sample_data/subscriptions.csv'',
      Begin, ReadFile ''schema/schema.sql'', ExecuteSchema, Commit,
      Begin, Truncate ''app_events_raw'', ToSql ''app_events_raw'',
      Truncate ''customers_raw'', ToSql ''customers_raw'',
      Truncate ''subscriptions_raw'', ToSql ''subscriptions_raw'',
      ExecuteTransform ''dim_customer'', ExecuteTransform ''dim_plan'',
      ExecuteTransform ''fact_app_usage'', ExecuteTransform ''fact_subscription_events'', Commit]"
proof -
  obtain d where "transform_all first_peer (staged \<lparr>df_app_events = stg_app_events_raw ex_staged_db,
      df_customers = stg_customers_raw ex_staged_db, df_subscriptions = stg_subscriptions_raw ex_staged_db\<rparr> (w_db ex_world)) = (None, d)"
    using ex_transform_ok by (cases "transform_all first_peer (staged \<lparr>df_app_events = stg_app_events_raw ex_staged_db,
      df_customers = stg_customers_raw ex_staged_db, df_subscriptions = stg_subscriptions_raw ex_staged_db\<rparr> ex_empty_db)")
       (simp add: ex_world_def)
  from main_trace_ok[OF _ _ _ _ this, of ex_files] show ?thesis
    by (simp add: ex_files_def ex_world_def)
qed

subsection \<open>C7: the churn flag\<close>

text \<open>
  Claim C7. Every row that the statement inserts into \<open>fact_subscription_events\<close> comes
  from a staging subscription \<open>s\<close>; its \<open>churn_flag\<close> is true exactly when the status
  of \<open>s\<close> is "cancelled" or its end date is present, and it is false when the status is
  "active" and the end date is missing.
\<close>

theorem churn_flag_iff:
  assumes "transform_fact_subscription_events db = (res, db')"
    and "r \<in> set (analytics_fact_subscription_events db')"
  shows "\<exists>s c p d. s \<in> set (stg_subscriptions_raw db) \<and> c \<in> set (stg_customers_raw db) \<and>
           p \<in> set (analytics_dim_plan db) \<and> d \<in> set (analytics_dim_date db) \<and>
           r = subscription_event_row (details_row s c p) d \<and>
           (fs_churn_flag r = Some True \<longleftrightarrow> s_status s = Some ''cancelled'' \<or> s_end_date s \<noteq> None) \<and>
           (s_status s = Some ''active'' \<and> s_end_date s = None \<longrightarrow> fs_churn_flag r = Some False)"
proof -
  from inserted_row[OF assms] obtain s c p d where *: "s \<in> set (stg_subscriptions_raw db)"
    "c \<in> set (stg_customers_raw db)" "p \<in> set (analytics_dim_plan db)"
    "d \<in> set (analytics_dim_date db)" "r = subscription_event_row (details_row s c p) d"
    by blast
  have "(fs_churn_flag r = Some True \<longleftrightarrow> s_status s = Some ''cancelled'' \<or> s_end_date s \<noteq> None) \<and>
        (s_status s = Some ''active'' \<and> s_end_date s = None \<longrightarrow> fs_churn_flag r = Some False)"
    unfolding *(5) using churn_flag_row(1)[of s c p d] churn_flag_row(3)[of s c p d] by blast
  with * show ?thesis by blast
qed

text \<open>
  The row of the cancelled subscription \<open>s2\<close>, which has no end date, carries the flag
  true; the row of the active subscription \<open>s1\<close> carries the flag false.
\<close>

theorem churn_flag_iff_witness:
  "transform_fact_subscription_events ex_db =
     (None, ex_db\<lparr>analytics_fact_subscription_events := [ex_row_s1, ex_row_s2, ex_row_s3]\<rparr>) \<and>
   ex_row_s2 \<in> set [ex_row_s1, ex_row_s2, ex_row_s3] \<and>
   (\<exists>s c p d. s \<in> set (stg_subscriptions_raw ex_db) \<and>
      ex_row_s2 = subscription_event_row (details_row s c p) d \<and>
      (fs_churn_flag ex_row_s2 = Some True \<longleftrightarrow> s_status s = Some ''cancelled'' \<or> s_end_date s \<noteq> None)) \<and>
   fs_status ex_row_s2 = Some ''cancelled'' \<and> fs_churn_flag ex_row_s2 = Some True \<and>
   fs_status ex_row_s1 = Some ''active'' \<and> fs_churn_flag ex_row_s1 = Some False"
proof -
  have m: "ex_row_s2 \<in> set (analytics_fact_subscription_events
             (ex_db\<lparr>analytics_fact_subscription_events := [ex_row_s1, ex_row_s2, ex_row_s3]\<rparr>))"
    by simp
  from churn_flag_iff[OF ex_facts m]
  have "\<exists>s c p d. s \<in> set (stg_subscriptions_raw ex_db) \<and>
      ex_row_s2 = subscription_event_row (details_row s c p) d \<and>
      (fs_churn_flag ex_row_s2 = Some True \<longleftrightarrow> s_status s = Some ''cancelled'' \<or> s_end_date s \<noteq> None)"
    by blast
  moreover have "fs_status ex_row_s2 = Some ''cancelled'' \<and> fs_churn_flag ex_row_s2 = Some True \<and>
    fs_status ex_row_s1 = Some ''active'' \<and> fs_churn_flag ex_row_s1 = Some False"
    by (simp add: ex_row_s1_def ex_row_s2_def)
  ultimately show ?thesis using ex_facts by simp
qed

subsection \<open>C8: the monthly amount\<close>

text \<open>
  Claim C8. Every row that the statement inserts into \<open>fact_subscription_events\<close> comes
  from a staging subscription \<open>s\<close>; its \<open>mrr_amount\<close> is the amount of \<open>s\<close> divided by
  12 when the period of \<open>s\<close> is "yearly", and the amount of \<open>s\<close> unchanged otherwise.
  Amounts are rationals and the division is exact.
\<close>

theorem mrr_amount_normalised:
  assumes "transform_fact_subscription_events db = (res, db')"
    and "r \<in> set (analytics_fact_subscription_events db')"
  shows "\<exists>s c p d. s \<in> set (stg_subscriptions_raw db) \<and> c \<in> set (stg_customers_raw db) \<and>
           p \<in> set (analytics_dim_plan db) \<and> d \<in> set (analytics_dim_date db) \<and>
           r = subscription_event_row (details_row s c p) d \<and>
           fs_mrr_amount r =
             (if s_period s = Some ''yearly'' then map_option (\<lambda>a. a / 12) (s_amount s) else s_amount s)"
proof -
  from inserted_row[OF assms] obtain s c p d where *: "s \<in> set (stg_subscriptions_raw db)"
    "c \<in> set (stg_customers_raw db)" "p \<in> set (analytics_dim_plan db)"
    "d \<in> set (analytics_dim_date db)" "r = subscription_event_row (details_row s c p) d"
    by blast
  from *(5) have "fs_mrr_amount r =
             (if s_period s = Some ''yearly'' then map_option (\<lambda>a. a / 12) (s_amount s) else s_amount s)"
    by (simp only: mrr_amount_row)
  with * show ?thesis by blast
qed

text \<open>
  The yearly subscription \<open>s3\<close> of amount 120 gives the monthly amount 10; the monthly
  subscription \<open>s1\<close> of amount 10 keeps 10.
\<close>

theorem mrr_amount_normalised_witness:
  "transform_fact_subscription_events ex_db =
     (None, ex_db\<lparr>analytics_fact_subscription_events := [ex_row_s1, ex_row_s2, ex_row_s3]\<rparr>) \<and>
   ex_row_s3 \<in> set [ex_row_s1, ex_row_s2, ex_row_s3] \<and>
   (\<exists>s c p d. s \<in> set (stg_subscriptions_raw ex_db) \<and>
      ex_row_s3 = subscription_event_row (details_row s c p) d \<and>
      fs_mrr_amount ex_row_s3 =
        (if s_period s = Some ''yearly'' then map_option (\<lambda>a. a / 12) (s_amount s) else s_amount s)) \<and>
   fs_mrr_amount ex_row_s3 = Some 10 \<and> fs_mrr_amount ex_row_s1 = Some 10 \<and>
   mrr_amount ex_team_120 = Some 10 \<and> mrr_amount ex_pro_10 = Some 10"
proof -
  have m: "ex_row_s3 \<in> set (analytics_fact_subscription_events
             (ex_db\<lparr>analytics_fact_subscription_events := [ex_row_s1, ex_row_s2, ex_row_s3]\<rparr>))"
    by simp
  from mrr_amount_normalised[OF ex_facts m]
  have "\<exists>s c p d. s \<in> set (stg_subscriptions_raw ex_db) \<and>
      ex_row_s3 = subscription_event_row (details_row s c p) d \<and>
      fs_mrr_amount ex_row_s3 =
        (if s_period s = Some ''yearly'' then map_option (\<lambda>a. a / 12) (s_amount s) else s_amount s)"
    by blast
  moreover have "fs_mrr_amount ex_row_s3 = Some 10 \<and> fs_mrr_amount ex_row_s1 = Some 10 \<and>
    mrr_amount ex_team_120 = Some 10 \<and> mrr_amount ex_pro_10 = Some 10"
    by (simp add: ex_row_s1_def ex_row_s3_def mrr_amount_def sql_defs ex_defs)
  ultimately show ?thesis using ex_facts by simp
qed

subsection \<open>C9: one usage row per resolvable event\<close>

text \<open>
  Claim C9. On a date dimension that holds each date once, the statement never raises,
  and it leaves in \<open>fact_app_usage\<close> exactly one row for each staging event whose
  calendar date has an entry in the date dimension, in staging order, and no row for any
  other event.
\<close>

theorem fact_app_usage_complete:
  assumes "distinct (map d_full_date (analytics_dim_date db))"
    and "transform_fact_app_usage db = (res, db')"
  shows "res = None \<and>
         analytics_fact_app_usage db' = fact_app_usage_one_row_per_resolvable_event db"
  using assms(2) app_usage_matches[OF assms(1)]
  by (auto simp: transform_fact_app_usage_def Let_def fact_app_usage_select_def
        fact_app_usage_one_row_per_resolvable_event_def)

text \<open>
  Of the two staging events, the one of 15 January 2024 has its row; the one of 1 March
  2024, a date the dimension lacks, has none, and nothing is raised.
\<close>

theorem fact_app_usage_complete_witness:
  "distinct (map d_full_date (analytics_dim_date ex_db)) \<and>
   transform_fact_app_usage ex_db = (None, ex_db\<lparr>analytics_fact_app_usage := [ex_usage_row]\<rparr>) \<and>
   length (stg_app_events_raw ex_db) = 2 \<and>
   fact_app_usage_one_row_per_resolvable_event ex_db = [ex_usage_row]"
proof -
  have h: "distinct (map d_full_date (analytics_dim_date ex_db))" by (simp add: ex_defs)
  have l: "length (stg_app_events_raw ex_db) = 2" by (simp add: ex_defs)
  from fact_app_usage_complete[OF h ex_usage] h l ex_usage show ?thesis by simp
qed

subsection \<open>C10: the load and the transform are one transaction\<close>

text \<open>
  Claim C10. When a run ends in failure (its last event is the log of the failure), every
  staging relation and every analytics relation is as it was before the run: the load and
  the transform share one transaction, so a statement that raises after the staging
  tables were truncated and reloaded undoes the reload too.
\<close>

theorem load_and_transform_all_or_nothing:
  assumes "last (w_trace (main tb fs w)) = LogPipelineFailed err"
  shows "relations (w_db (main tb fs w)) = relations (w_db w)"
proof (cases "app_events_json fs = None \<or> customers_csv fs = None \<or> subscriptions_csv fs = None \<or> \<not> schema_sql fs")
  case True
  then have "run_db tb fs (w_db w) = w_db w"
    by (auto simp: run_db_def split: option.splits)
  then show ?thesis by (simp add: main_db)
next
  case False
  then obtain es cs ss where f: "app_events_json fs = Some es" "customers_csv fs = Some cs"
    "subscriptions_csv fs = Some ss" "schema_sql fs" by auto
  define dfs where "dfs = \<lparr>df_app_events = es, df_customers = cs, df_subscriptions = ss\<rparr>"
  from extract_data_from_files_ok[OF f(1,2,3), of w] obtain w1 where
    ex: "extract_data_from_files fs w = (Inr dfs, w1)" and w1: "w_db w1 = w_db w"
    by (simp add: dfs_def)
  obtain w2 where cr: "in_transaction (create_schema fs) w1 = (Inr (), w2)" and w2: "w_db w2 = w_db w1"
    using f(4) by (simp add: in_transaction_def Let_def create_schema_ok emit_def)
  define body where "body = and_then (load_data_to_staging_with_sql dfs) (\<lambda>_. transform_data_in_analytics tb)"
  obtain res w3 where lt: "in_transaction body w2 = (res, w3)" by (cases "in_transaction body w2")
  have m: "main tb fs w = (case res of Inr _ \<Rightarrow> w3 | Inl err \<Rightarrow> emit (LogPipelineFailed err) w3)"
    using lt by (simp add: main_def and_then_def[of "extract_data_from_files fs"]
          and_then_def[of "in_transaction (create_schema fs)"] ex cr body_def split: sum.splits)
  show ?thesis
  proof (cases res)
    case (Inr u)
    with lt have "last (w_trace w3) = Commit"
      by (auto simp: in_transaction_def Let_def split: prod.splits sum.splits)
    with m Inr assms show ?thesis by simp
  next
    case (Inl e)
    obtain r d where t: "transform_all tb (staged dfs (w_db w2)) = (r, d)"
      by (cases "transform_all tb (staged dfs (w_db w2))")
    from load_and_transform_result(2)[where tb=tb and dfs=dfs and w=w2] lt Inl t
    have "r = Some e" by (cases r) (simp_all add: body_def)
    with load_and_transform_result(1)[where tb=tb and dfs=dfs and w=w2] lt t
    have "w_db w3 = rollback_to (w_db w2) d" by (simp add: body_def)
    with m Inl w1 w2 show ?thesis by simp
  qed
qed

text \<open>
  In \<open>ex_dup_files\<close> two customer rows carry the same customer id, so the first transform
  statement raises after the three staging tables were reloaded; the run rolls back and
  leaves the relations of the starting database, the empty staging tables included.
\<close>

theorem load_and_transform_all_or_nothing_witness:
  "last (w_trace (main first_peer ex_dup_files ex_world)) =
     LogPipelineFailed (CardinalityViolation ''dim_customer'') \<and>
   ToSql ''subscriptions_raw'' \<in> set (w_trace (main first_peer ex_dup_files ex_world)) \<and>
   relations (w_db (main first_peer ex_dup_files ex_world)) = relations ex_empty_db"
proof -
  have l: "last (w_trace (main first_peer ex_dup_files ex_world)) =
             LogPipelineFailed (CardinalityViolation ''dim_customer'')"
    by (simp add: ex_dup_trace)
  have t: "ToSql ''subscriptions_raw'' \<in> set (w_trace (main first_peer ex_dup_files ex_world))"
    by (simp add: ex_dup_trace)
  have "relations (w_db (main first_peer ex_dup_files ex_world)) = relations (w_db ex_world)"
    using l by (rule load_and_transform_all_or_nothing)
  then have "relations (w_db (main first_peer ex_dup_files ex_world)) = relations ex_empty_db"
    by (simp add: ex_world_def)
  with l t show ?thesis by blast
qed

end
